theory Spec2Isabelle
  imports Main "HOL-Library.AList" "HOL-Library.Multiset"
begin

section \<open>Python strings and integers\<close>

text \<open>
  The source is Python 3 text handling on ASCII strings: \<^verbatim>\<open>str.split()\<close>,
  \<^verbatim>\<open>str.split('/')\<close>, \<^verbatim>\<open>' '.join\<close>, \<^verbatim>\<open>str.replace\<close>, \<^verbatim>\<open>in\<close>,
  \<^verbatim>\<open>int(str)\<close> and \<^verbatim>\<open>str(int)\<close>. A failing \<^verbatim>\<open>int\<close> is \<open>None\<close> here and
  becomes \<open>ValueError\<close> where the source calls it.
\<close>

definition py_isspace :: "char \<Rightarrow> bool" where
  "py_isspace c \<longleftrightarrow> c \<in> set [CHR 0x20, CHR 0x09, CHR 0x0A, CHR 0x0B, CHR 0x0C, CHR 0x0D,
                             CHR 0x1C, CHR 0x1D, CHR 0x1E, CHR 0x1F]"

text \<open>\<^verbatim>\<open>s.split()\<close>: the maximal runs of non-whitespace characters, in order.\<close>

fun split_ws_from :: "string \<Rightarrow> string \<Rightarrow> string list" where
  "split_ws_from cur [] = (if cur = [] then [] else [cur])"
| "split_ws_from cur (c # cs) =
     (if py_isspace c
      then (if cur = [] then split_ws_from [] cs else cur # split_ws_from [] cs)
      else split_ws_from (cur @ [c]) cs)"

definition split_ws :: "string \<Rightarrow> string list" where
  "split_ws s = split_ws_from [] s"

text \<open>\<^verbatim>\<open>s.split(d)\<close> for a one-character separator: never empty, one more field than
  separators.\<close>

fun split_on :: "char \<Rightarrow> string \<Rightarrow> string list" where
  "split_on d [] = [[]]"
| "split_on d (c # cs) =
     (if c = d then [] # split_on d cs
      else (c # hd (split_on d cs)) # tl (split_on d cs))"

text \<open>\<^verbatim>\<open>sep.join(xs)\<close>.\<close>

fun join :: "string \<Rightarrow> string list \<Rightarrow> string" where
  "join sep [] = []"
| "join sep [x] = x"
| "join sep (x # y # ys) = x @ sep @ join sep (y # ys)"

text \<open>\<^verbatim>\<open>s.replace(a, b)\<close> for one-character \<open>a\<close> and \<open>b\<close>.\<close>

definition replace_char :: "char \<Rightarrow> char \<Rightarrow> string \<Rightarrow> string" where
  "replace_char a b s = map (\<lambda>c. if c = a then b else c) s"

text \<open>\<^verbatim>\<open>sub in s\<close> on strings.\<close>

fun starts_with :: "string \<Rightarrow> string \<Rightarrow> bool" where
  "starts_with [] s = True"
| "starts_with (x # xs) [] = False"
| "starts_with (x # xs) (c # cs) = (x = c \<and> starts_with xs cs)"

fun py_in :: "string \<Rightarrow> string \<Rightarrow> bool" where
  "py_in sub [] = (sub = [])"
| "py_in sub (c # cs) = (starts_with sub (c # cs) \<or> py_in sub cs)"

text \<open>\<^verbatim>\<open>str(n)\<close> for a non-negative integer (an index from \<^verbatim>\<open>enumerate\<close> or
  \<^verbatim>\<open>range\<close>).\<close>

definition digit_char :: "nat \<Rightarrow> char" where
  "digit_char d = char_of (48 + d)"

fun str_nat :: "nat \<Rightarrow> string" where
  "str_nat n = (if n < 10 then [digit_char n] else str_nat (n div 10) @ [digit_char (n mod 10)])"

declare str_nat.simps [simp del]

text \<open>
  \<^verbatim>\<open>int(s)\<close>: surrounding whitespace is dropped, one sign is allowed, then decimal digits,
  where single underscores may stand between two digits.
\<close>

definition digit_val :: "char \<Rightarrow> nat option" where
  "digit_val c = (let k = (of_char c :: nat) in if 48 \<le> k \<and> k \<le> 57 then Some (k - 48) else None)"

fun py_digits_from :: "nat \<Rightarrow> string \<Rightarrow> nat option" where
  "py_digits_from acc [] = Some acc"
| "py_digits_from acc [c] =
     (case digit_val c of None \<Rightarrow> None | Some d \<Rightarrow> Some (10 * acc + d))"
| "py_digits_from acc (c # c' # cs) =
     (if c = CHR ''_''
      then (case digit_val c' of None \<Rightarrow> None | Some d \<Rightarrow> py_digits_from (10 * acc + d) cs)
      else (case digit_val c of None \<Rightarrow> None
            | Some d \<Rightarrow> py_digits_from (10 * acc + d) (c' # cs)))"

definition py_digits :: "string \<Rightarrow> nat option" where
  "py_digits s =
     (case s of [] \<Rightarrow> None
      | c # cs \<Rightarrow> (case digit_val c of None \<Rightarrow> None | Some d \<Rightarrow> py_digits_from d cs))"

definition py_strip :: "string \<Rightarrow> string" where
  "py_strip s = rev (dropWhile py_isspace (rev (dropWhile py_isspace s)))"

definition py_int :: "string \<Rightarrow> int option" where
  "py_int s =
     (case py_strip s of [] \<Rightarrow> None
      | c # cs \<Rightarrow>
          if c = CHR ''-'' then map_option (\<lambda>n. - int n) (py_digits cs)
          else if c = CHR ''+'' then map_option int (py_digits cs)
          else map_option int (py_digits (c # cs)))"

section \<open>Python dictionaries\<close>

text \<open>
  A \<^verbatim>\<open>dict\<close> is an association list in insertion order; assigning to a key that is
  present replaces its value in place (\<open>AList.update\<close>).
\<close>

definition dict_comp :: "('a \<Rightarrow> 'k) \<Rightarrow> 'a list \<Rightarrow> ('k \<times> 'a) list" where
  "dict_comp key xs = fold (\<lambda>x d. AList.update (key x) x d) xs []"

definition dict_update :: "('k \<times> 'v) list \<Rightarrow> ('k \<times> 'v) list \<Rightarrow> ('k \<times> 'v) list" where
  "dict_update d other = fold (\<lambda>(k, v) d'. AList.update k v d') other d"

definition dict_values :: "('k \<times> 'v) list \<Rightarrow> 'v list" where
  "dict_values d = map snd d"

definition dict_keys :: "('k \<times> 'v) list \<Rightarrow> 'k list" where
  "dict_keys d = map fst d"

section \<open>Errors, the transport and programs\<close>

text \<open>
  \<open>KeyError\<close>, \<open>ValueError\<close> and \<open>IndexError\<close> are Python's own exceptions, raised
  by the source's dictionary lookups, tuple unpacking, \<^verbatim>\<open>int\<close> and list indexing. The
  others are the error kinds of the specification.
\<close>

datatype error = KeyError | ValueError | IndexError
  | NotFound | ProtocolError | ReservationConflict | Timeout

text \<open>A request names the object that issues it by its identity and its name.\<close>

type_synonym target = "nat \<times> string"

datatype request =
    SendCommand target string "string list"
  | GetAttribute target string
  | GetAttributes target string
  | PortReserve target bool
  | PortRelease target
  | PortReset target
  | PortClearStats target
  | PortInventory target
  | SocketConnect string int
  | KeepAliveStart string

datatype reply = Ack | Value string | Values "(string \<times> string) list" | Failure error

type_synonym event = "request \<times> reply"

text \<open>
  The hardware and the transport are outside the program: the answer to a request is an
  arbitrary function of everything exchanged so far and of the request.
\<close>

type_synonym hardware = "event list \<Rightarrow> request \<Rightarrow> reply"

record env =
  trace :: "event list"
  next_id :: nat

datatype 'a outcome = Return 'a | Raise error

type_synonym ('s, 'a) prog = "'s \<Rightarrow> 'a outcome \<times> 's"

definition return :: "'a \<Rightarrow> ('s, 'a) prog" where
  "return x s = (Return x, s)"

definition raise :: "error \<Rightarrow> ('s, 'a) prog" where
  "raise err s = (Raise err, s)"

definition bind :: "('s, 'a) prog \<Rightarrow> ('a \<Rightarrow> ('s, 'b) prog) \<Rightarrow> ('s, 'b) prog" where
  "bind m f s = (case m s of (Return x, s') \<Rightarrow> f x s' | (Raise err, s') \<Rightarrow> (Raise err, s'))"

text \<open>\<^verbatim>\<open>for x in xs: body(x)\<close>; an exception in the body ends the loop.\<close>

fun for_each :: "'a list \<Rightarrow> ('a \<Rightarrow> ('s, unit) prog) \<Rightarrow> ('s, unit) prog" where
  "for_each [] body = return ()"
| "for_each (x # xs) body = bind (body x) (\<lambda>_. for_each xs body)"

text \<open>One exchange with the hardware: the reply is recorded with its request.\<close>

definition exchange :: "hardware \<Rightarrow> request \<Rightarrow> env \<Rightarrow> reply \<times> env" where
  "exchange hw rq e = (let rp = hw (trace e) rq in (rp, e\<lparr>trace := trace e @ [(rq, rp)]\<rparr>))"

text \<open>A call that returns nothing: any reply but a failure is success.\<close>

definition command :: "hardware \<Rightarrow> request \<Rightarrow> (env, unit) prog" where
  "command hw rq e =
     (case exchange hw rq e of
        (Failure err, e') \<Rightarrow> (Raise err, e')
      | (_, e') \<Rightarrow> (Return (), e'))"

text \<open>A program on the environment alone, run where an object is also part of the state.\<close>

definition lift_env :: "(env, 'a) prog \<Rightarrow> (env \<times> 't, 'a) prog" where
  "lift_env m = (\<lambda>(e, t). case m e of (r, e') \<Rightarrow> (r, (e', t)))"

section \<open>The object tree\<close>

text \<open>
  One node type for session, chassis, module and port, told apart by \<open>obj_type\<close> as in
  the source. \<open>obj_id\<close> is the identity of the Python object; \<open>info\<close> is the
  attribute \<^verbatim>\<open>c_info\<close> of a chassis and \<^verbatim>\<open>m_info\<close> of a module (\<open>None\<close> until
  \<^verbatim>\<open>inventory\<close>).
\<close>

datatype node = Node (obj_id: nat) (obj_type: string) (index: string) (name: string)
  (info: "(string \<times> string) list option") (objects: "node list")

definition set_objects :: "node \<Rightarrow> node list \<Rightarrow> node" where
  "set_objects n cs = Node (obj_id n) (obj_type n) (index n) (name n) (info n) cs"

definition set_info :: "node \<Rightarrow> (string \<times> string) list \<Rightarrow> node" where
  "set_info n i = Node (obj_id n) (obj_type n) (index n) (name n) (Some i) (objects n)"

definition target_of :: "node \<Rightarrow> target" where
  "target_of n = (obj_id n, name n)"

text \<open>
  Modelled from the spec: the class \<^verbatim>\<open>XenaObject\<close> (module \<^verbatim>\<open>xena_object\<close>) is not
  among the sources. The source reads \<^verbatim>\<open>ref\<close> of a module as its index
  (\<^verbatim>\<open>int(c.ref)\<close>) and \<^verbatim>\<open>ref\<close> of a port as \<^verbatim>\<open>module/port\<close>, the index it was built
  with; \<^verbatim>\<open>str(obj)\<close> is the key of the dictionaries the source documents as
  \<^verbatim>\<open>{name: object}\<close>.
\<close>

definition ref :: "node \<Rightarrow> string" where
  "ref n = index n"

definition str :: "node \<Rightarrow> string" where
  "str n = name n"

text \<open>
  Modelled from the spec: \<^verbatim>\<open>get_objects_by_type(kind)\<close> of the missing \<^verbatim>\<open>XenaObject\<close>,
  "all descendants of a given kind, tree order".
\<close>

fun descendants :: "node \<Rightarrow> node list" where
  "descendants (Node i t ix nm nf cs) = concat (map (\<lambda>c. c # descendants c) cs)"

definition get_objects_by_type :: "node \<Rightarrow> string \<Rightarrow> node list" where
  "get_objects_by_type n kind = filter (\<lambda>d. obj_type d = kind) (descendants n)"

text \<open>
  Modelled from the spec: \<^verbatim>\<open>get_object_by_name(name)\<close> of the missing \<^verbatim>\<open>XenaObject\<close>,
  "single descendant by exact name match; fails with NotFound if absent".
\<close>

definition get_object_by_name :: "node \<Rightarrow> string \<Rightarrow> error + node" where
  "get_object_by_name n nm =
     (case filter (\<lambda>d. name d = nm) (descendants n) of
        [] \<Rightarrow> Inl NotFound
      | d # _ \<Rightarrow> Inr d)"

text \<open>
  Modelled from the spec: the constructor of the missing \<^verbatim>\<open>XenaObject\<close>. The new
  object becomes a child of its parent, the object in the state; here it gets a fresh
  identity and is the last child. Its name, when none is given, is "derived from its
  parent's name plus its index"; for a port found by inventory it is
  \<^verbatim>\<open><chassis-name>/<module-index>/<port-index>\<close>, so the part of the parent's name that is
  used is the chassis address in front of it. The spec calls the children an ordered set
  and the names unique in a session, and does not say what the constructor does when the
  parent already holds a child of the same kind, index and name: no property below is
  about such a second child.
\<close>

definition owner_address :: "node \<Rightarrow> string" where
  "owner_address n = hd (split_on CHR ''/'' (name n))"

definition default_name :: "node \<Rightarrow> string \<Rightarrow> string" where
  "default_name parent ix = owner_address parent @ ''/'' @ ix"

definition new_object :: "string \<Rightarrow> string \<Rightarrow> string \<Rightarrow> (env \<times> node, node) prog" where
  "new_object objType ix nm =
     (\<lambda>(e, parent).
        let self = Node (next_id e) objType ix nm None []
        in (Return self,
            (e\<lparr>next_id := Suc (next_id e)\<rparr>, set_objects parent (objects parent @ [self]))))"

text \<open>
  A method that changes the object it is called on runs on that object as its state. Here
  the object is the last child of the object in the state (it was just constructed), and
  the changed object takes its place.
\<close>

definition in_last_object :: "(env \<times> node, 'a) prog \<Rightarrow> (env \<times> node, 'a) prog" where
  "in_last_object m =
     (\<lambda>(e, parent).
        case m (e, last (objects parent)) of
          (r, (e', child)) \<Rightarrow> (r, (e', set_objects parent (butlast (objects parent) @ [child]))))"

text \<open>
  Here the object is any object of the tree in the state, given by its current value; the
  changed object takes the place of the object with its identity.
\<close>

fun replace_node :: "node \<Rightarrow> node \<Rightarrow> node" where
  "replace_node new (Node i t ix nm nf cs) =
     (if i = obj_id new then new else Node i t ix nm nf (map (replace_node new) cs))"

definition in_object :: "node \<Rightarrow> (env \<times> node, 'a) prog \<Rightarrow> (env \<times> node, 'a) prog" where
  "in_object obj m =
     (\<lambda>(e, tree).
        case m (e, obj) of (r, (e', obj')) \<Rightarrow> (r, (e', replace_node obj' tree)))"

text \<open>
  Modelled from the spec: \<^verbatim>\<open>send_command\<close>, \<^verbatim>\<open>get_attribute\<close> and
  \<^verbatim>\<open>get_attributes\<close> of the missing \<^verbatim>\<open>XenaObject\<close>. The command or query goes to the
  transport of the owning chassis; a rejected or malformed answer is an error. The parsing
  of an answer into a value or a mapping is part of the missing code, so the reply already
  is the value or the mapping.
\<close>

definition send_command :: "hardware \<Rightarrow> node \<Rightarrow> string \<Rightarrow> string list \<Rightarrow> (env, unit) prog" where
  "send_command hw self cmd args = command hw (SendCommand (target_of self) cmd args)"

definition get_attribute :: "hardware \<Rightarrow> node \<Rightarrow> string \<Rightarrow> (env, string) prog" where
  "get_attribute hw self attr e =
     (case exchange hw (GetAttribute (target_of self) attr) e of
        (Value v, e') \<Rightarrow> (Return v, e')
      | (Failure err, e') \<Rightarrow> (Raise err, e')
      | (_, e') \<Rightarrow> (Raise ProtocolError, e'))"

definition get_attributes ::
  "hardware \<Rightarrow> node \<Rightarrow> string \<Rightarrow> (env, (string \<times> string) list) prog" where
  "get_attributes hw self prefix e =
     (case exchange hw (GetAttributes (target_of self) prefix) e of
        (Values vs, e') \<Rightarrow> (Return vs, e')
      | (Failure err, e') \<Rightarrow> (Raise err, e')
      | (_, e') \<Rightarrow> (Raise ProtocolError, e'))"

text \<open>\<^verbatim>\<open>d[key]\<close> on a dictionary: \<open>KeyError\<close> when the key is absent.\<close>

definition dict_get :: "('k \<times> 'v) list \<Rightarrow> 'k \<Rightarrow> ('s, 'v) prog" where
  "dict_get d k = (case map_of d k of None \<Rightarrow> raise KeyError | Some v \<Rightarrow> return v)"

text \<open>\<^verbatim>\<open>int(s)\<close> as a statement: \<open>ValueError\<close> when \<open>s\<close> is no integer.\<close>

definition int_of :: "string \<Rightarrow> ('s, int) prog" where
  "int_of s = (case py_int s of None \<Rightarrow> raise ValueError | Some i \<Rightarrow> return i)"

section \<open>Ports\<close>

text \<open>
  Modelled from the spec: the class \<^verbatim>\<open>XenaPort\<close> (module \<^verbatim>\<open>xena_port\<close>) is not among
  the sources. Its constructor is the one of \<^verbatim>\<open>XenaObject\<close> with type \<^verbatim>\<open>port\<close>;
  \<^verbatim>\<open>reserve(force)\<close>, \<^verbatim>\<open>release()\<close> and \<^verbatim>\<open>reset()\<close> are "direct command wrappers",
  \<^verbatim>\<open>reserve\<close> being rejected with \<open>ReservationConflict\<close> by the hardware;
  \<^verbatim>\<open>clear_stats()\<close> is the "per-port stat-clear command"; the spec says nothing about
  what \<^verbatim>\<open>inventory()\<close> of a port reads, so it is one opaque exchange.
\<close>

definition XenaPort :: "string \<Rightarrow> (env \<times> node, node) prog" where
  "XenaPort ix = (\<lambda>(e, parent). new_object ''port'' ix (default_name parent ix) (e, parent))"

definition port_reserve :: "hardware \<Rightarrow> node \<Rightarrow> bool \<Rightarrow> (env, unit) prog" where
  "port_reserve hw self force = command hw (PortReserve (target_of self) force)"

definition port_release :: "hardware \<Rightarrow> node \<Rightarrow> (env, unit) prog" where
  "port_release hw self = command hw (PortRelease (target_of self))"

definition port_reset :: "hardware \<Rightarrow> node \<Rightarrow> (env, unit) prog" where
  "port_reset hw self = command hw (PortReset (target_of self))"

definition port_clear_stats :: "hardware \<Rightarrow> node \<Rightarrow> (env, unit) prog" where
  "port_clear_stats hw self = command hw (PortClearStats (target_of self))"

definition port_inventory :: "hardware \<Rightarrow> node \<Rightarrow> (env, unit) prog" where
  "port_inventory hw self = command hw (PortInventory (target_of self))"

text \<open>
  Modelled from the spec: \<^verbatim>\<open>wait_for_states(attribute, timeout, *expected_values)\<close> of
  the missing \<^verbatim>\<open>XenaPort\<close>, which "repeatedly queries attribute until its value is one of
  expected_values or timeout elapses, at which point it fails with Timeout", with "a fixed
  short delay between queries". One query is made per time unit of the timeout.
\<close>

fun wait_for_states :: "hardware \<Rightarrow> node \<Rightarrow> string \<Rightarrow> nat \<Rightarrow> string list \<Rightarrow> (env, unit) prog" where
  "wait_for_states hw self attr 0 states = raise Timeout"
| "wait_for_states hw self attr (Suc n) states =
     bind (get_attribute hw self attr)
       (\<lambda>v. if v \<in> set states then return () else wait_for_states hw self attr n states)"

section \<open>Chassis\<close>

text \<open>
  \<^verbatim>\<open>XenaChassis\<close> of \<^verbatim>\<open>xena_app.py\<close>. A method that only talks to the hardware
  takes the chassis as a value and runs on the environment; \<^verbatim>\<open>reserve_ports\<close> and
  \<^verbatim>\<open>inventory\<close> add children to the chassis and run on the chassis as state.
\<close>

text \<open>The property \<^verbatim>\<open>ports\<close>: \<^verbatim>\<open>{str(p): p for p in self.get_objects_by_type('port')}\<close>.\<close>

definition chassis_ports :: "node \<Rightarrow> (string \<times> node) list" where
  "chassis_ports self = dict_comp str (get_objects_by_type self ''port'')"

text \<open>\<^verbatim>\<open>_get_operation_ports\<close>: \<^verbatim>\<open>ports if ports else self.ports.values()\<close>.\<close>

definition chassis_get_operation_ports :: "node \<Rightarrow> node list \<Rightarrow> node list" where
  "chassis_get_operation_ports self ports =
     (if ports \<noteq> [] then ports else dict_values (chassis_ports self))"

text \<open>\<^verbatim>\<open>logon\<close>: the password, then the owner, each in double quotes.\<close>

definition quoted :: "string \<Rightarrow> string" where
  "quoted s = [CHR 0x22] @ s @ [CHR 0x22]"

definition chassis_logon :: "hardware \<Rightarrow> node \<Rightarrow> string \<Rightarrow> string \<Rightarrow> (env, unit) prog" where
  "chassis_logon hw self password owner =
     bind (send_command hw self ''c_logon'' [quoted password])
       (\<lambda>_. send_command hw self ''c_owner'' [quoted owner])"

text \<open>\<^verbatim>\<open>reserve_ports\<close>: a new port object for every location, reserved and then reset;
  the result is the property \<^verbatim>\<open>ports\<close> read at the end.\<close>

definition chassis_reserve_ports ::
  "hardware \<Rightarrow> string list \<Rightarrow> bool \<Rightarrow> (env \<times> node, (string \<times> node) list) prog" where
  "chassis_reserve_ports hw locations force =
     bind (for_each locations
             (\<lambda>location.
                bind (XenaPort location)
                  (\<lambda>port. bind (lift_env (port_reserve hw port force))
                     (\<lambda>_. lift_env (port_reset hw port)))))
       (\<lambda>_. (\<lambda>(e, self). return (chassis_ports self) (e, self)))"

text \<open>\<^verbatim>\<open>release_ports\<close>: every port of the property \<^verbatim>\<open>ports\<close> is released.\<close>

definition chassis_release_ports :: "hardware \<Rightarrow> node \<Rightarrow> (env, unit) prog" where
  "chassis_release_ports hw self =
     for_each (dict_values (chassis_ports self)) (\<lambda>port. port_release hw port)"

text \<open>\<^verbatim>\<open>_traffic_command\<close>: one \<^verbatim>\<open>c_traffic\<close> command for all ports, then every port
  is polled for the commanded state with timeout 40.\<close>

definition traffic_command :: "hardware \<Rightarrow> node \<Rightarrow> string \<Rightarrow> node list \<Rightarrow> (env, unit) prog" where
  "traffic_command hw self cmd ports =
     (let ports' = chassis_get_operation_ports self ports;
          ports_str = join '' '' (map (\<lambda>p. replace_char CHR ''/'' CHR '' '' (ref p)) ports')
      in bind (send_command hw self ''c_traffic'' [cmd, ports_str])
           (\<lambda>_. for_each ports' (\<lambda>port. wait_for_states hw port ''p_traffic'' 40 [cmd])))"

text \<open>\<^verbatim>\<open>wait_traffic\<close>: every port is polled for \<^verbatim>\<open>off\<close> with timeout
  \<^verbatim>\<open>int(2.628e+6)\<close>.\<close>

definition chassis_wait_traffic :: "hardware \<Rightarrow> node \<Rightarrow> node list \<Rightarrow> (env, unit) prog" where
  "chassis_wait_traffic hw self ports =
     for_each ports (\<lambda>port. wait_for_states hw port ''p_traffic'' 2628000 [''off''])"

definition chassis_start_traffic ::
  "hardware \<Rightarrow> node \<Rightarrow> bool \<Rightarrow> node list \<Rightarrow> (env, unit) prog" where
  "chassis_start_traffic hw self blocking ports =
     bind (traffic_command hw self ''on'' ports)
       (\<lambda>_. if blocking then chassis_wait_traffic hw self ports else return ())"

definition chassis_stop_traffic :: "hardware \<Rightarrow> node \<Rightarrow> node list \<Rightarrow> (env, unit) prog" where
  "chassis_stop_traffic hw self ports = traffic_command hw self ''off'' ports"

definition chassis_clear_stats :: "hardware \<Rightarrow> node \<Rightarrow> node list \<Rightarrow> (env, unit) prog" where
  "chassis_clear_stats hw self ports = for_each ports (\<lambda>port. port_clear_stats hw port)"

section \<open>Modules and inventory\<close>

text \<open>The constructor of \<^verbatim>\<open>XenaModule\<close>: type \<^verbatim>\<open>module\<close>, the index an integer.\<close>

definition XenaModule :: "nat \<Rightarrow> (env \<times> node, node) prog" where
  "XenaModule m_index =
     (\<lambda>(e, parent).
        new_object ''module'' (str_nat m_index) (default_name parent (str_nat m_index))
          (e, parent))"

text \<open>\<^verbatim>\<open>XenaModule.inventory\<close>: \<^verbatim>\<open>m_info\<close> is read and stored, the port count comes
  from \<^verbatim>\<open>m_portcount\<close> or from the first field of \<^verbatim>\<open>m_cfpconfig\<close>, and one port is
  constructed and inventoried for every index of \<^verbatim>\<open>range(m_portcount)\<close>.\<close>

definition module_port_count :: "hardware \<Rightarrow> node \<Rightarrow> (string \<times> string) list \<Rightarrow> (env, int) prog" where
  "module_port_count hw self m_info =
     bind (dict_get m_info ''m_cfptype'')
       (\<lambda>cfptype.
          if py_in ''NOTCFP'' cfptype
          then bind (get_attribute hw self ''m_portcount'') (\<lambda>a. int_of a)
          else bind (get_attribute hw self ''m_cfpconfig'')
                 (\<lambda>a. case split_ws a of [] \<Rightarrow> raise IndexError | x # _ \<Rightarrow> int_of x))"

definition module_inventory :: "hardware \<Rightarrow> (env \<times> node, unit) prog" where
  "module_inventory hw =
     bind (\<lambda>(e, self). lift_env (get_attributes hw self ''m_info'') (e, self))
       (\<lambda>m_info.
          bind (\<lambda>(e, self). return () (e, set_info self m_info))
            (\<lambda>_. bind (\<lambda>(e, self). lift_env (module_port_count hw self m_info) (e, self))
               (\<lambda>m_portcount.
                  for_each [0..<nat m_portcount]
                    (\<lambda>p_index.
                       bind (\<lambda>(e, self). XenaPort (ref self @ ''/'' @ str_nat p_index) (e, self))
                         (\<lambda>port. lift_env (port_inventory hw port))))))"

text \<open>\<^verbatim>\<open>XenaChassis.inventory\<close>: \<^verbatim>\<open>c_info\<close> is read and stored; for every field of
  \<^verbatim>\<open>c_portcounts\<close>, with its position, a module is constructed and inventoried when the
  field is a nonzero integer.\<close>

definition chassis_inventory :: "hardware \<Rightarrow> (env \<times> node, unit) prog" where
  "chassis_inventory hw =
     bind (\<lambda>(e, self). lift_env (get_attributes hw self ''c_info'') (e, self))
       (\<lambda>c_info.
          bind (\<lambda>(e, self). return () (e, set_info self c_info))
            (\<lambda>_. bind (dict_get c_info ''c_portcounts'')
               (\<lambda>portcounts.
                  for_each (enumerate 0 (split_ws portcounts))
                    (\<lambda>(m_index, m_portcounts).
                       bind (int_of m_portcounts)
                         (\<lambda>count.
                            if count \<noteq> 0
                            then bind (XenaModule m_index)
                                   (\<lambda>_. in_last_object (module_inventory hw))
                            else return ())))))"

section \<open>Session\<close>

record session =
  owner :: string
  root :: node

text \<open>\<^verbatim>\<open>XenaSession.__init__\<close>: the root of the tree, type \<^verbatim>\<open>session\<close>, empty index,
  no parent.\<close>

definition XenaSession :: "string \<Rightarrow> env \<times> session" where
  "XenaSession own =
     (\<lparr>trace = [], next_id = 1\<rparr>, \<lparr>owner = own, root = Node 0 ''session'' [] [] None []\<rparr>)"

text \<open>A program on the root object, run on the session.\<close>

definition in_root :: "(env \<times> node, 'a) prog \<Rightarrow> (env \<times> session, 'a) prog" where
  "in_root m =
     (\<lambda>(e, s). case m (e, root s) of (r, (e', n)) \<Rightarrow> (r, (e', s\<lparr>root := n\<rparr>)))"

text \<open>The property \<^verbatim>\<open>chassis_list\<close>:
  \<^verbatim>\<open>{str(c): c for c in self.get_objects_by_type('chassis')}\<close>.\<close>

definition chassis_list :: "session \<Rightarrow> (string \<times> node) list" where
  "chassis_list s = dict_comp str (get_objects_by_type (root s) ''chassis'')"

text \<open>The property \<^verbatim>\<open>ports\<close>: the port dictionaries of all chassis of
  \<^verbatim>\<open>chassis_list\<close>, merged by \<^verbatim>\<open>dict.update\<close>.\<close>

definition session_ports :: "session \<Rightarrow> (string \<times> node) list" where
  "session_ports s =
     fold (\<lambda>chassis ports.
             dict_update ports (dict_comp str (get_objects_by_type chassis ''port'')))
       (dict_values (chassis_list s)) []"

definition session_get_operation_ports :: "session \<Rightarrow> node list \<Rightarrow> node list" where
  "session_get_operation_ports s ports =
     (if ports \<noteq> [] then ports else dict_values (session_ports s))"

text \<open>
  \<^verbatim>\<open>_per_chassis_ports\<close>: the dictionary from chassis object to the list of its ports,
  in the order of the arguments. The chassis is looked up by the first field of the port's
  name. The two steps of the source, entering the empty list for a new chassis and
  appending the port, are one update here.
\<close>

fun per_chassis_from ::
  "session \<Rightarrow> node list \<Rightarrow> (node \<times> node list) list \<Rightarrow> error + (node \<times> node list) list" where
  "per_chassis_from s [] d = Inr d"
| "per_chassis_from s (port # ports) d =
     (case get_object_by_name (root s) (hd (split_on CHR ''/'' (name port))) of
        Inl err \<Rightarrow> Inl err
      | Inr chassis \<Rightarrow>
          per_chassis_from s ports
            (case map_of d chassis of
               None \<Rightarrow> AList.update chassis [port] d
             | Some ps \<Rightarrow> AList.update chassis (ps @ [port]) d))"

definition per_chassis_ports :: "session \<Rightarrow> node list \<Rightarrow> error + (node \<times> node list) list" where
  "per_chassis_ports s ports = per_chassis_from s ports []"

text \<open>The constructor of \<^verbatim>\<open>XenaChassis\<close>: the object is entered into the tree under
  the session with the address as its name, then the socket is connected and the
  keep-alive thread started.\<close>

definition XenaChassis :: "hardware \<Rightarrow> string \<Rightarrow> int \<Rightarrow> (env \<times> node, node) prog" where
  "XenaChassis hw ip port =
     bind (new_object ''chassis'' [] ip)
       (\<lambda>self. bind (lift_env (command hw (SocketConnect ip port)))
          (\<lambda>_. bind (lift_env (command hw (KeepAliveStart ip)))
             (\<lambda>_. return self)))"

text \<open>\<^verbatim>\<open>add_chassis\<close>: nothing when the address is a key of \<^verbatim>\<open>chassis_list\<close>;
  otherwise the chassis is constructed and logged on.\<close>

definition add_chassis ::
  "hardware \<Rightarrow> string \<Rightarrow> int \<Rightarrow> string \<Rightarrow> (env \<times> session, unit) prog" where
  "add_chassis hw chassis port password =
     (\<lambda>(e, s).
        if chassis \<notin> set (dict_keys (chassis_list s))
        then bind (in_root (XenaChassis hw chassis port))
               (\<lambda>c. lift_env (chassis_logon hw c password (owner s))) (e, s)
        else return () (e, s))"

text \<open>\<^verbatim>\<open>XenaSession.inventory\<close>: every chassis of the session takes its inventory.\<close>

definition session_inventory :: "hardware \<Rightarrow> (env \<times> session, unit) prog" where
  "session_inventory hw =
     (\<lambda>(e, s).
        for_each (get_objects_by_type (root s) ''chassis'')
          (\<lambda>chassis. in_root (in_object chassis (chassis_inventory hw))) (e, s))"

text \<open>\<^verbatim>\<open>XenaSession.reserve_ports\<close>: every location is split into address, module and
  port (exactly three fields, or \<open>ValueError\<close>), the chassis is taken from
  \<^verbatim>\<open>chassis_list\<close> (\<open>KeyError\<close> when the address is no key) and reserves the port.\<close>

definition session_reserve_location ::
  "hardware \<Rightarrow> bool \<Rightarrow> string \<Rightarrow> (env \<times> session, unit) prog" where
  "session_reserve_location hw force location =
     (case split_on CHR ''/'' location of
        [ip, module, port] \<Rightarrow>
          bind (\<lambda>(e, s). dict_get (chassis_list s) ip (e, s))
            (\<lambda>chassis.
               bind (in_root (in_object chassis
                       (chassis_reserve_ports hw [module @ ''/'' @ port] force)))
                 (\<lambda>_. return ()))
      | _ \<Rightarrow> raise ValueError)"

definition session_reserve_ports ::
  "hardware \<Rightarrow> string list \<Rightarrow> bool \<Rightarrow> (env \<times> session, (string \<times> node) list) prog" where
  "session_reserve_ports hw locations force =
     bind (for_each locations (session_reserve_location hw force))
       (\<lambda>_. (\<lambda>(e, s). return (session_ports s) (e, s)))"

text \<open>\<^verbatim>\<open>release_ports\<close>: for every chassis that is a key of the per-chassis dictionary of
  all session ports, the chassis releases its ports.\<close>

definition session_release_ports :: "hardware \<Rightarrow> session \<Rightarrow> (env, unit) prog" where
  "session_release_ports hw s =
     (case per_chassis_ports s (session_get_operation_ports s []) of
        Inl err \<Rightarrow> raise err
      | Inr d \<Rightarrow> for_each (dict_keys d) (\<lambda>chassis. chassis_release_ports hw chassis))"

definition session_clear_stats :: "hardware \<Rightarrow> session \<Rightarrow> node list \<Rightarrow> (env, unit) prog" where
  "session_clear_stats hw s ports =
     (case per_chassis_ports s (session_get_operation_ports s ports) of
        Inl err \<Rightarrow> raise err
      | Inr d \<Rightarrow>
          for_each d (\<lambda>(chassis, chassis_ports). chassis_clear_stats hw chassis chassis_ports))"

text \<open>\<^verbatim>\<open>start_traffic\<close>: every chassis starts traffic without blocking; then, when
  \<^verbatim>\<open>blocking\<close>, the per-chassis dictionary is computed again and every chassis waits.\<close>

definition session_start_traffic ::
  "hardware \<Rightarrow> session \<Rightarrow> bool \<Rightarrow> node list \<Rightarrow> (env, unit) prog" where
  "session_start_traffic hw s blocking ports =
     bind (case per_chassis_ports s (session_get_operation_ports s ports) of
             Inl err \<Rightarrow> raise err
           | Inr d \<Rightarrow>
               for_each d (\<lambda>(chassis, chassis_ports).
                 chassis_start_traffic hw chassis False chassis_ports))
       (\<lambda>_. if blocking
            then (case per_chassis_ports s (session_get_operation_ports s ports) of
                    Inl err \<Rightarrow> raise err
                  | Inr d \<Rightarrow>
                      for_each d (\<lambda>(chassis, chassis_ports).
                        chassis_wait_traffic hw chassis chassis_ports))
            else return ())"

definition session_stop_traffic :: "hardware \<Rightarrow> session \<Rightarrow> node list \<Rightarrow> (env, unit) prog" where
  "session_stop_traffic hw s ports =
     (case per_chassis_ports s (session_get_operation_ports s ports) of
        Inl err \<Rightarrow> raise err
      | Inr d \<Rightarrow>
          for_each d (\<lambda>(chassis, chassis_ports). chassis_stop_traffic hw chassis chassis_ports))"

section \<open>Auxiliary notions for the properties\<close>

text \<open>The environment after one more exchange.\<close>

definition logged :: "hardware \<Rightarrow> request \<Rightarrow> env \<Rightarrow> env" where
  "logged hw rq e = e\<lparr>trace := trace e @ [(rq, hw (trace e) rq)]\<rparr>"

definition is_failure :: "reply \<Rightarrow> bool" where
  "is_failure rp = (case rp of Failure err \<Rightarrow> True | _ \<Rightarrow> False)"

text \<open>The port objects that the constructor of \<^verbatim>\<open>XenaPort\<close> makes for a list of
  indices under one parent, the first with identity \<open>n\<close>.\<close>

fun new_ports :: "node \<Rightarrow> nat \<Rightarrow> string list \<Rightarrow> node list" where
  "new_ports parent n [] = []"
| "new_ports parent n (ix # ixs) =
     Node n ''port'' ix (default_name parent ix) None [] # new_ports parent (Suc n) ixs"

text \<open>Reserve and reset, port by port.\<close>

definition reserve_requests :: "bool \<Rightarrow> node list \<Rightarrow> request list" where
  "reserve_requests force ports =
     concat (map (\<lambda>p. [PortReserve (target_of p) force, PortReset (target_of p)]) ports)"

text \<open>The body of the loop of \<^verbatim>\<open>XenaChassis.reserve_ports\<close>.\<close>

definition reserve_one :: "hardware \<Rightarrow> bool \<Rightarrow> string \<Rightarrow> (env \<times> node, unit) prog" where
  "reserve_one hw force location =
     bind (XenaPort location)
       (\<lambda>port. bind (lift_env (port_reserve hw port force)) (\<lambda>_. lift_env (port_reset hw port)))"

text \<open>An object with all objects below it; what the lookups by type and by name read of
  an object; the requests of a reservation.\<close>

definition nodes :: "node \<Rightarrow> node list" where
  "nodes n = n # descendants n"

definition label :: "node \<Rightarrow> string \<times> string" where
  "label n = (obj_type n, name n)"

definition reserve_or_reset :: "request \<Rightarrow> bool" where
  "reserve_or_reset rq = (case rq of PortReserve t f \<Rightarrow> True | PortReset t \<Rightarrow> True | _ \<Rightarrow> False)"

text \<open>The bodies of the loops of \<^verbatim>\<open>XenaModule.inventory\<close> and
  \<^verbatim>\<open>XenaChassis.inventory\<close>, the index \<^verbatim>\<open>'{}/{}'.format(self.ref, p_index)\<close> of an
  inventoried port, and the module object as its constructor makes it.\<close>

definition inventory_port :: "hardware \<Rightarrow> nat \<Rightarrow> (env \<times> node, unit) prog" where
  "inventory_port hw p_index =
     bind (\<lambda>(e, self). XenaPort (ref self @ ''/'' @ str_nat p_index) (e, self))
       (\<lambda>port. lift_env (port_inventory hw port))"

definition port_index :: "node \<Rightarrow> nat \<Rightarrow> string" where
  "port_index m i = index m @ ''/'' @ str_nat i"

definition inventory_module :: "hardware \<Rightarrow> nat \<times> string \<Rightarrow> (env \<times> node, unit) prog" where
  "inventory_module hw =
     (\<lambda>(m_index, m_portcounts).
        bind (int_of m_portcounts)
          (\<lambda>cnt. if cnt \<noteq> 0
                 then bind (XenaModule m_index) (\<lambda>_. in_last_object (module_inventory hw))
                 else return ()))"

definition new_module :: "node \<Rightarrow> nat \<Rightarrow> nat \<Rightarrow> node" where
  "new_module parent n m_index =
     Node n ''module'' (str_nat m_index) (default_name parent (str_nat m_index)) None []"

text \<open>
  The exchanges of one \<^verbatim>\<open>wait_for_states\<close>: queries of the attribute on the port, at most
  as many as the timeout; every answer before the last is a value that is not expected;
  on return the last answer is an expected value; on an exception either the last answer
  is no value (the error of the answer) or the timeout is used up without an expected value.
\<close>

definition polled :: "node \<Rightarrow> string \<Rightarrow> nat \<Rightarrow> string list \<Rightarrow> unit outcome \<Rightarrow> event list \<Rightarrow> bool" where
  "polled p attr n states r b \<longleftrightarrow>
     map fst b = replicate (length b) (GetAttribute (target_of p) attr) \<and>
     length b \<le> n \<and>
     (\<forall>ev\<in>set (butlast b). case snd ev of Value v \<Rightarrow> v \<notin> set states | _ \<Rightarrow> False) \<and>
     (case r of
        Return u \<Rightarrow> b \<noteq> [] \<and> (case snd (last b) of Value v \<Rightarrow> v \<in> set states | _ \<Rightarrow> False)
      | Raise err \<Rightarrow>
          (b \<noteq> [] \<and>
             (case snd (last b) of Value v \<Rightarrow> False | Failure x \<Rightarrow> err = x | _ \<Rightarrow> err = ProtocolError)) \<or>
          (err = Timeout \<and> length b = n \<and>
             (\<forall>ev\<in>set b. case snd ev of Value v \<Rightarrow> v \<notin> set states | _ \<Rightarrow> False)))"

text \<open>
  The exchanges of a loop of \<^verbatim>\<open>wait_for_states\<close> over a list of ports: on return one
  returning wait per port, in order; on an exception returning waits for the ports before
  one port whose wait raised it.
\<close>

definition polled_each ::
  "string \<Rightarrow> nat \<Rightarrow> string list \<Rightarrow> node list \<Rightarrow> unit outcome \<Rightarrow> event list \<Rightarrow> bool" where
  "polled_each attr n states ports r b \<longleftrightarrow>
     (case r of
        Return u \<Rightarrow>
          (\<exists>bs. b = concat bs \<and> list_all2 (\<lambda>p b'. polled p attr n states (Return ()) b') ports bs)
      | Raise err \<Rightarrow>
          (\<exists>bs b' k. k < length ports \<and> b = concat bs @ b' \<and>
             list_all2 (\<lambda>p b'. polled p attr n states (Return ()) b') (take k ports) bs \<and>
             polled (ports ! k) attr n states (Raise err) b'))"

text \<open>The combined command of \<^verbatim>\<open>_traffic_command\<close>.\<close>

definition traffic_request :: "node \<Rightarrow> string \<Rightarrow> node list \<Rightarrow> request" where
  "traffic_request c cmd ports =
     SendCommand (target_of c) ''c_traffic''
       [cmd, join '' '' (map (\<lambda>p. replace_char CHR ''/'' CHR '' '' (ref p)) ports)]"

text \<open>
  One step of \<^verbatim>\<open>_per_chassis_ports\<close>, and what holds of its dictionary: the keys are
  different chassis, no list is empty, and every port is under the chassis that the lookup
  by the first field of its name gives.
\<close>

definition add_port :: "node \<Rightarrow> node \<Rightarrow> (node \<times> node list) list \<Rightarrow> (node \<times> node list) list" where
  "add_port chassis port d =
     (case map_of d chassis of
        None \<Rightarrow> AList.update chassis [port] d
      | Some ps \<Rightarrow> AList.update chassis (ps @ [port]) d)"

definition grouped :: "session \<Rightarrow> (node \<times> node list) list \<Rightarrow> bool" where
  "grouped s d \<longleftrightarrow>
     distinct (map fst d) \<and>
     (\<forall>g\<in>set d. snd g \<noteq> [] \<and>
        (\<forall>p\<in>set (snd g). get_object_by_name (root s) (owner_address p) = Inr (fst g)))"

text \<open>
  The exchanges of a chassis with its ports in \<^verbatim>\<open>XenaSession.start_traffic\<close>: on start
  the combined command and then, when it is accepted, the polls of the ports for \<^verbatim>\<open>on\<close>;
  on wait the polls of the ports for \<^verbatim>\<open>off\<close>. \<open>observed p v\<close> is the exchange in
  which port \<open>p\<close> reports the traffic state \<open>v\<close>.
\<close>

definition started :: "node \<times> node list \<Rightarrow> unit outcome \<Rightarrow> event list \<Rightarrow> bool" where
  "started g r b \<longleftrightarrow>
     (\<exists>rp b'. b = (traffic_request (fst g) ''on'' (snd g), rp) # b' \<and>
        ((\<exists>err. rp = Failure err \<and> r = Raise err \<and> b' = []) \<or>
         (\<not> is_failure rp \<and> polled_each ''p_traffic'' 40 [''on''] (snd g) r b')))"

definition awaited :: "node \<times> node list \<Rightarrow> unit outcome \<Rightarrow> event list \<Rightarrow> bool" where
  "awaited g r b \<longleftrightarrow> polled_each ''p_traffic'' 2628000 [''off''] (snd g) r b"

definition observed :: "node \<Rightarrow> string \<Rightarrow> event" where
  "observed p v = (GetAttribute (target_of p) ''p_traffic'', Value v)"

text \<open>
  The chassis of a session and the ports below them, as the lookups by type find them. A
  session is well addressed when its chassis have different names, the lookup by the name
  of a chassis gives that chassis, and the names of the ports below a chassis begin with
  the name of the chassis. \<open>released chs\<close> are the ports that
  \<^verbatim>\<open>XenaChassis.release_ports\<close> releases for a list of chassis.
\<close>

definition session_chassis :: "session \<Rightarrow> node list" where
  "session_chassis s = get_objects_by_type (root s) ''chassis''"

definition all_ports :: "session \<Rightarrow> node list" where
  "all_ports s = concat (map (\<lambda>c. get_objects_by_type c ''port'') (session_chassis s))"

definition well_addressed :: "session \<Rightarrow> bool" where
  "well_addressed s \<longleftrightarrow>
     distinct (map name (session_chassis s)) \<and>
     (\<forall>c\<in>set (session_chassis s).
        get_object_by_name (root s) (name c) = Inr c \<and>
        (\<forall>p\<in>set (get_objects_by_type c ''port''). owner_address p = name c))"

definition released :: "node list \<Rightarrow> node list" where
  "released chs = concat (map (\<lambda>c. dict_values (chassis_ports c)) chs)"

section \<open>An example hardware and example sessions\<close>

text \<open>
  A hardware that accepts every command, reports traffic \<^verbatim>\<open>on\<close> at the first poll of a
  port and \<^verbatim>\<open>off\<close> afterwards, and has three module slots of which the second is empty.
\<close>

definition hw_demo :: hardware where
  "hw_demo tr rq =
     (case rq of
        GetAttribute t a \<Rightarrow>
          if a = ''p_traffic''
          then (if GetAttribute t a \<in> set (map fst tr) then Value ''off'' else Value ''on'')
          else if a = ''m_portcount'' then Value ''2''
          else Value ''1 100''
      | GetAttributes t a \<Rightarrow>
          if a = ''c_info'' then Values [(''c_portcounts'', ''2 0 1'')]
          else Values [(''m_cfptype'', if snd t = ''10.0.0.1/0'' then ''NOTCFP'' else ''CFP4'')]
      | _ \<Rightarrow> Ack)"

text \<open>The session of owner \<^verbatim>\<open>me\<close> after \<^verbatim>\<open>add_chassis('10.0.0.1')\<close>.\<close>

definition demo1 :: "env \<times> session" where
  "demo1 =
    (\<lparr>trace =
       [(SocketConnect ''10.0.0.1'' 22611, Ack), (KeepAliveStart ''10.0.0.1'', Ack),
        (SendCommand (1, ''10.0.0.1'') ''c_logon'' [quoted ''xena''], Ack),
        (SendCommand (1, ''10.0.0.1'') ''c_owner'' [quoted ''me''], Ack)],
      next_id = 2\<rparr>,
     \<lparr>owner = ''me'',
      root = Node 0 ''session'' [] [] None [Node 1 ''chassis'' [] ''10.0.0.1'' None []]\<rparr>)"

text \<open>A chassis without ports, and the same chassis after
  \<^verbatim>\<open>reserve_ports(['0/1', '0/2'])\<close>.\<close>

definition demo_chassis :: node where
  "demo_chassis = Node 1 ''chassis'' [] ''10.0.0.1'' None []"

definition demo_env :: env where
  "demo_env = \<lparr>trace = [], next_id = 2\<rparr>"

definition demo_port :: "nat \<Rightarrow> string \<Rightarrow> node" where
  "demo_port i ix = Node i ''port'' ix (''10.0.0.1/'' @ ix) None []"

definition demo_reserved :: "(string \<times> node) list outcome \<times> env \<times> node" where
  "demo_reserved =
     (Return [(''10.0.0.1/0/1'', demo_port 2 ''0/1''), (''10.0.0.1/0/2'', demo_port 3 ''0/2'')],
      \<lparr>trace =
         [(PortReserve (2, ''10.0.0.1/0/1'') False, Ack), (PortReset (2, ''10.0.0.1/0/1''), Ack),
          (PortReserve (3, ''10.0.0.1/0/2'') False, Ack), (PortReset (3, ''10.0.0.1/0/2''), Ack)],
        next_id = 4\<rparr>,
      Node 1 ''chassis'' [] ''10.0.0.1'' None [demo_port 2 ''0/1'', demo_port 3 ''0/2''])"

text \<open>A session with two chassis, and the outcome of reserving three ports in it.\<close>

definition demo_two :: "env \<times> session" where
  "demo_two =
     (\<lparr>trace = [], next_id = 3\<rparr>,
      \<lparr>owner = ''me'',
       root = Node 0 ''session'' [] [] None
         [Node 1 ''chassis'' [] ''10.0.0.1'' None [], Node 2 ''chassis'' [] ''10.0.0.2'' None []]\<rparr>)"

definition demo_three :: "(string \<times> node) list outcome \<times> env \<times> session" where
  "demo_three =
     (Return [(''10.0.0.1/0/1'', Node 3 ''port'' ''0/1'' ''10.0.0.1/0/1'' None []),
              (''10.0.0.1/0/2'', Node 5 ''port'' ''0/2'' ''10.0.0.1/0/2'' None []),
              (''10.0.0.2/0/0'', Node 4 ''port'' ''0/0'' ''10.0.0.2/0/0'' None [])],
      \<lparr>trace =
         [(PortReserve (3, ''10.0.0.1/0/1'') False, Ack), (PortReset (3, ''10.0.0.1/0/1''), Ack),
          (PortReserve (4, ''10.0.0.2/0/0'') False, Ack), (PortReset (4, ''10.0.0.2/0/0''), Ack),
          (PortReserve (5, ''10.0.0.1/0/2'') False, Ack), (PortReset (5, ''10.0.0.1/0/2''), Ack)],
        next_id = 6\<rparr>,
      \<lparr>owner = ''me'',
       root = Node 0 ''session'' [] [] None
         [Node 1 ''chassis'' [] ''10.0.0.1'' None
            [Node 3 ''port'' ''0/1'' ''10.0.0.1/0/1'' None [],
             Node 5 ''port'' ''0/2'' ''10.0.0.1/0/2'' None []],
          Node 2 ''chassis'' [] ''10.0.0.2'' None
            [Node 4 ''port'' ''0/0'' ''10.0.0.2/0/0'' None []]]\<rparr>)"

text \<open>A module before its inventory, and the outcomes of the inventory of that module and
  of the chassis without ports.\<close>

definition demo_module :: node where
  "demo_module = Node 1 ''module'' ''0'' ''10.0.0.1/0'' None []"

definition demo_module_inventory :: "unit outcome \<times> env \<times> node" where
  "demo_module_inventory =
     (Return (),
      \<lparr>trace =
         [(GetAttributes (1, ''10.0.0.1/0'') ''m_info'', Values [(''m_cfptype'', ''NOTCFP'')]),
          (GetAttribute (1, ''10.0.0.1/0'') ''m_portcount'', Value ''2''),
          (PortInventory (2, ''10.0.0.1/0/0''), Ack), (PortInventory (3, ''10.0.0.1/0/1''), Ack)],
        next_id = 4\<rparr>,
      Node 1 ''module'' ''0'' ''10.0.0.1/0'' (Some [(''m_cfptype'', ''NOTCFP'')])
        [Node 2 ''port'' ''0/0'' ''10.0.0.1/0/0'' None [],
         Node 3 ''port'' ''0/1'' ''10.0.0.1/0/1'' None []])"

definition demo_chassis_inventory :: "unit outcome \<times> env \<times> node" where
  "demo_chassis_inventory =
     (Return (),
      \<lparr>trace =
         [(GetAttributes (1, ''10.0.0.1'') ''c_info'', Values [(''c_portcounts'', ''2 0 1'')]),
          (GetAttributes (2, ''10.0.0.1/0'') ''m_info'', Values [(''m_cfptype'', ''NOTCFP'')]),
          (GetAttribute (2, ''10.0.0.1/0'') ''m_portcount'', Value ''2''),
          (PortInventory (3, ''10.0.0.1/0/0''), Ack), (PortInventory (4, ''10.0.0.1/0/1''), Ack),
          (GetAttributes (5, ''10.0.0.1/2'') ''m_info'', Values [(''m_cfptype'', ''CFP4'')]),
          (GetAttribute (5, ''10.0.0.1/2'') ''m_cfpconfig'', Value ''1 100''),
          (PortInventory (6, ''10.0.0.1/2/0''), Ack)],
        next_id = 7\<rparr>,
      Node 1 ''chassis'' [] ''10.0.0.1'' (Some [(''c_portcounts'', ''2 0 1'')])
        [Node 2 ''module'' ''0'' ''10.0.0.1/0'' (Some [(''m_cfptype'', ''NOTCFP'')])
           [Node 3 ''port'' ''0/0'' ''10.0.0.1/0/0'' None [],
            Node 4 ''port'' ''0/1'' ''10.0.0.1/0/1'' None []],
         Node 5 ''module'' ''2'' ''10.0.0.1/2'' (Some [(''m_cfptype'', ''CFP4'')])
           [Node 6 ''port'' ''2/0'' ''10.0.0.1/2/0'' None []]])"

text \<open>The chassis with two reserved ports: the outcome of \<^verbatim>\<open>_traffic_command('on')\<close>
  and of \<^verbatim>\<open>wait_traffic\<close> after it.\<close>

definition demo_on :: "unit outcome \<times> env" where
  "demo_on =
     (Return (),
      \<lparr>trace =
         [(SendCommand (1, ''10.0.0.1'') ''c_traffic'' [''on'', ''0 1 0 2''], Ack),
          (GetAttribute (2, ''10.0.0.1/0/1'') ''p_traffic'', Value ''on''),
          (GetAttribute (3, ''10.0.0.1/0/2'') ''p_traffic'', Value ''on'')],
        next_id = 4\<rparr>)"

definition demo_off :: "unit outcome \<times> env" where
  "demo_off =
     (Return (),
      \<lparr>trace =
         [(SendCommand (1, ''10.0.0.1'') ''c_traffic'' [''on'', ''0 1 0 2''], Ack),
          (GetAttribute (2, ''10.0.0.1/0/1'') ''p_traffic'', Value ''on''),
          (GetAttribute (3, ''10.0.0.1/0/2'') ''p_traffic'', Value ''on''),
          (GetAttribute (2, ''10.0.0.1/0/1'') ''p_traffic'', Value ''off''),
          (GetAttribute (3, ''10.0.0.1/0/2'') ''p_traffic'', Value ''off'')],
        next_id = 4\<rparr>)"

text \<open>The session with three reserved ports: its per-chassis dictionary, and the
  environment after \<^verbatim>\<open>start_traffic\<close> without and with blocking.\<close>

definition demo_groups :: "(node \<times> node list) list" where
  "demo_groups =
     [(Node 1 ''chassis'' [] ''10.0.0.1'' None
         [Node 3 ''port'' ''0/1'' ''10.0.0.1/0/1'' None [],
          Node 5 ''port'' ''0/2'' ''10.0.0.1/0/2'' None []],
       [Node 3 ''port'' ''0/1'' ''10.0.0.1/0/1'' None [],
        Node 5 ''port'' ''0/2'' ''10.0.0.1/0/2'' None []]),
      (Node 2 ''chassis'' [] ''10.0.0.2'' None
         [Node 4 ''port'' ''0/0'' ''10.0.0.2/0/0'' None []],
       [Node 4 ''port'' ''0/0'' ''10.0.0.2/0/0'' None []])]"

definition demo_started :: env where
  "demo_started =
     \<lparr>trace =
        [(SendCommand (1, ''10.0.0.1'') ''c_traffic'' [''on'', ''0 1 0 2''], Ack),
         (GetAttribute (3, ''10.0.0.1/0/1'') ''p_traffic'', Value ''on''),
         (GetAttribute (5, ''10.0.0.1/0/2'') ''p_traffic'', Value ''on''),
         (SendCommand (2, ''10.0.0.2'') ''c_traffic'' [''on'', ''0 0''], Ack),
         (GetAttribute (4, ''10.0.0.2/0/0'') ''p_traffic'', Value ''on'')],
       next_id = 6\<rparr>"

definition demo_finished :: env where
  "demo_finished =
     \<lparr>trace =
        [(SendCommand (1, ''10.0.0.1'') ''c_traffic'' [''on'', ''0 1 0 2''], Ack),
         (GetAttribute (3, ''10.0.0.1/0/1'') ''p_traffic'', Value ''on''),
         (GetAttribute (5, ''10.0.0.1/0/2'') ''p_traffic'', Value ''on''),
         (SendCommand (2, ''10.0.0.2'') ''c_traffic'' [''on'', ''0 0''], Ack),
         (GetAttribute (4, ''10.0.0.2/0/0'') ''p_traffic'', Value ''on''),
         (GetAttribute (3, ''10.0.0.1/0/1'') ''p_traffic'', Value ''off''),
         (GetAttribute (5, ''10.0.0.1/0/2'') ''p_traffic'', Value ''off''),
         (GetAttribute (4, ''10.0.0.2/0/0'') ''p_traffic'', Value ''off'')],
       next_id = 6\<rparr>"

text \<open>The session with three reserved ports: the environment after \<^verbatim>\<open>clear_stats()\<close>,
  after \<^verbatim>\<open>clear_stats\<close> of one port, and after \<^verbatim>\<open>release_ports()\<close>.\<close>

definition demo_cleared :: env where
  "demo_cleared =
     \<lparr>trace =
        [(PortClearStats (3, ''10.0.0.1/0/1''), Ack), (PortClearStats (5, ''10.0.0.1/0/2''), Ack),
         (PortClearStats (4, ''10.0.0.2/0/0''), Ack)],
       next_id = 6\<rparr>"

definition demo_cleared_one :: env where
  "demo_cleared_one = \<lparr>trace = [(PortClearStats (4, ''10.0.0.2/0/0''), Ack)], next_id = 6\<rparr>"

definition demo_released :: env where
  "demo_released =
     \<lparr>trace =
        [(PortRelease (3, ''10.0.0.1/0/1''), Ack), (PortRelease (5, ''10.0.0.1/0/2''), Ack),
         (PortRelease (4, ''10.0.0.2/0/0''), Ack)],
       next_id = 6\<rparr>"

text \<open>
  The session of owner \<^verbatim>\<open>me\<close> after \<^verbatim>\<open>add_chassis('10.0.0.1')\<close> and \<^verbatim>\<open>inventory()\<close>,
  then after \<^verbatim>\<open>add_chassis('10.0.0.2')\<close>, then the outcome of
  \<^verbatim>\<open>reserve_ports(['10.0.0.1/0/1', '10.0.0.2/0/0'])\<close>, and the environment after
  \<^verbatim>\<open>release_ports()\<close>.
\<close>

definition demo_found :: "env \<times> session" where
  "demo_found =
     (\<lparr>trace = trace (fst demo1) @
         [(GetAttributes (1, ''10.0.0.1'') ''c_info'', Values [(''c_portcounts'', ''2 0 1'')]),
          (GetAttributes (2, ''10.0.0.1/0'') ''m_info'', Values [(''m_cfptype'', ''NOTCFP'')]),
          (GetAttribute (2, ''10.0.0.1/0'') ''m_portcount'', Value ''2''),
          (PortInventory (3, ''10.0.0.1/0/0''), Ack), (PortInventory (4, ''10.0.0.1/0/1''), Ack),
          (GetAttributes (5, ''10.0.0.1/2'') ''m_info'', Values [(''m_cfptype'', ''CFP4'')]),
          (GetAttribute (5, ''10.0.0.1/2'') ''m_cfpconfig'', Value ''1 100''),
          (PortInventory (6, ''10.0.0.1/2/0''), Ack)],
        next_id = 7\<rparr>,
      \<lparr>owner = ''me'',
       root = Node 0 ''session'' [] [] None
         [Node 1 ''chassis'' [] ''10.0.0.1'' (Some [(''c_portcounts'', ''2 0 1'')])
            [Node 2 ''module'' ''0'' ''10.0.0.1/0'' (Some [(''m_cfptype'', ''NOTCFP'')])
               [Node 3 ''port'' ''0/0'' ''10.0.0.1/0/0'' None [],
                Node 4 ''port'' ''0/1'' ''10.0.0.1/0/1'' None []],
             Node 5 ''module'' ''2'' ''10.0.0.1/2'' (Some [(''m_cfptype'', ''CFP4'')])
               [Node 6 ''port'' ''2/0'' ''10.0.0.1/2/0'' None []]]]\<rparr>)"

definition demo_found_two :: "env \<times> session" where
  "demo_found_two =
     (\<lparr>trace = trace (fst demo_found) @
         [(SocketConnect ''10.0.0.2'' 22611, Ack), (KeepAliveStart ''10.0.0.2'', Ack),
          (SendCommand (7, ''10.0.0.2'') ''c_logon'' [quoted ''xena''], Ack),
          (SendCommand (7, ''10.0.0.2'') ''c_owner'' [quoted ''me''], Ack)],
        next_id = 8\<rparr>,
      \<lparr>owner = ''me'',
       root = Node 0 ''session'' [] [] None
         [Node 1 ''chassis'' [] ''10.0.0.1'' (Some [(''c_portcounts'', ''2 0 1'')])
            [Node 2 ''module'' ''0'' ''10.0.0.1/0'' (Some [(''m_cfptype'', ''NOTCFP'')])
               [Node 3 ''port'' ''0/0'' ''10.0.0.1/0/0'' None [],
                Node 4 ''port'' ''0/1'' ''10.0.0.1/0/1'' None []],
             Node 5 ''module'' ''2'' ''10.0.0.1/2'' (Some [(''m_cfptype'', ''CFP4'')])
               [Node 6 ''port'' ''2/0'' ''10.0.0.1/2/0'' None []]],
          Node 7 ''chassis'' [] ''10.0.0.2'' None []]\<rparr>)"

definition demo_found_reserved :: "(string \<times> node) list outcome \<times> env \<times> session" where
  "demo_found_reserved =
     (Return [(''10.0.0.1/0/0'', Node 3 ''port'' ''0/0'' ''10.0.0.1/0/0'' None []),
              (''10.0.0.1/0/1'', Node 8 ''port'' ''0/1'' ''10.0.0.1/0/1'' None []),
              (''10.0.0.1/2/0'', Node 6 ''port'' ''2/0'' ''10.0.0.1/2/0'' None []),
              (''10.0.0.2/0/0'', Node 9 ''port'' ''0/0'' ''10.0.0.2/0/0'' None [])],
      \<lparr>trace = trace (fst demo_found_two) @
         [(PortReserve (8, ''10.0.0.1/0/1'') False, Ack), (PortReset (8, ''10.0.0.1/0/1''), Ack),
          (PortReserve (9, ''10.0.0.2/0/0'') False, Ack), (PortReset (9, ''10.0.0.2/0/0''), Ack)],
        next_id = 10\<rparr>,
      \<lparr>owner = ''me'',
       root = Node 0 ''session'' [] [] None
         [Node 1 ''chassis'' [] ''10.0.0.1'' (Some [(''c_portcounts'', ''2 0 1'')])
            [Node 2 ''module'' ''0'' ''10.0.0.1/0'' (Some [(''m_cfptype'', ''NOTCFP'')])
               [Node 3 ''port'' ''0/0'' ''10.0.0.1/0/0'' None [],
                Node 4 ''port'' ''0/1'' ''10.0.0.1/0/1'' None []],
             Node 5 ''module'' ''2'' ''10.0.0.1/2'' (Some [(''m_cfptype'', ''CFP4'')])
               [Node 6 ''port'' ''2/0'' ''10.0.0.1/2/0'' None []],
             Node 8 ''port'' ''0/1'' ''10.0.0.1/0/1'' None []],
          Node 7 ''chassis'' [] ''10.0.0.2'' None
            [Node 9 ''port'' ''0/0'' ''10.0.0.2/0/0'' None []]]\<rparr>)"

definition demo_found_released :: env where
  "demo_found_released =
     \<lparr>trace = trace (fst (snd demo_found_reserved)) @
        [(PortRelease (3, ''10.0.0.1/0/0''), Ack), (PortRelease (8, ''10.0.0.1/0/1''), Ack),
         (PortRelease (6, ''10.0.0.1/2/0''), Ack), (PortRelease (9, ''10.0.0.2/0/0''), Ack)],
       next_id = 10\<rparr>"

section \<open>Programs: basic laws\<close>

lemma bind_eq_Return:
  "bind m f s = (Return y, s'') \<longleftrightarrow> (\<exists>x s'. m s = (Return x, s') \<and> f x s' = (Return y, s''))"
  by (auto simp: bind_def split: prod.splits outcome.splits)

lemma bind_Return_step: "m s = (Return x, s') \<Longrightarrow> bind m f s = f x s'"
  by (simp add: bind_def)

lemma bind_Raise_step: "m s = (Raise err, s') \<Longrightarrow> bind m f s = (Raise err, s')"
  by (simp add: bind_def)

lemma bind_return_left [simp]: "bind (return x) f = f x"
  by (rule ext) (simp add: bind_def return_def)

lemma bind_raise_left [simp]: "bind (raise err) f = raise err"
  by (rule ext) (simp add: bind_def raise_def)

lemma bind_assoc: "bind (bind m f) g = bind m (\<lambda>x. bind (f x) g)"
  by (rule ext) (simp add: bind_def split: prod.splits outcome.splits)

lemma for_each_append:
  "for_each (xs @ ys) body = bind (for_each xs body) (\<lambda>_. for_each ys body)"
  by (induction xs) (simp_all add: bind_assoc)

lemma set_keys_update: "set (map fst (AList.update k v d)) = insert k (set (map fst d))"
  using dom_update [of k v d] by simp

lemma keys_fold_update:
  "set (map fst (fold (\<lambda>x d. AList.update (key x) x d) xs d0)) = key ` set xs \<union> set (map fst d0)"
  by (induction xs arbitrary: d0) (auto simp: set_keys_update simp del: set_map)

lemma set_dict_keys_comp: "set (dict_keys (dict_comp key xs)) = key ` set xs"
  using keys_fold_update [of key xs "[]"] by (simp add: dict_keys_def dict_comp_def)

lemma descendants_set_objects_snoc:
  "descendants (set_objects n (objects n @ [c])) = descendants n @ c # descendants c"
  by (cases n) (simp add: set_objects_def)

text \<open>Effects of the primitives.\<close>

lemma command_eq:
  "command hw rq e =
     ((case hw (trace e) rq of Failure err \<Rightarrow> Raise err | _ \<Rightarrow> Return ()), logged hw rq e)"
  by (simp add: command_def exchange_def logged_def Let_def split: reply.splits)

lemma lift_env_eq: "lift_env m (e, t) = (fst (m e), (snd (m e), t))"
  by (simp add: lift_env_def split: prod.splits)

lemma lift_env_tree: "lift_env m (e, t) = (r, (e', t')) \<Longrightarrow> t' = t"
  by (auto simp: lift_env_eq)

lemma new_object_eq:
  "new_object ty ix nm (e, parent) =
     (Return (Node (next_id e) ty ix nm None []),
      (e\<lparr>next_id := Suc (next_id e)\<rparr>,
       set_objects parent (objects parent @ [Node (next_id e) ty ix nm None []])))"
  by (simp add: new_object_def Let_def)

lemma XenaChassis_tree:
  assumes "XenaChassis hw ip port (e, n) = (r, (e', n'))"
  shows "n' = set_objects n (objects n @ [Node (next_id e) ''chassis'' [] ip None []])"
  using assms
  by (auto simp: XenaChassis_def bind_def new_object_eq lift_env_eq return_def
      split: prod.splits outcome.splits)

lemma add_known:
  assumes "a \<in> name ` set (get_objects_by_type (root s) ''chassis'')"
  shows "add_chassis hw a port password (e, s) = (Return (), (e, s))"
  using assms by (simp add: add_chassis_def set_dict_keys_comp chassis_list_def str_def [abs_def] return_def)

lemma add_chassis_tree:
  assumes "a \<notin> name ` set (get_objects_by_type (root s) ''chassis'')"
    and "add_chassis hw a port password (e, s) = (r, (e', s'))"
  shows "root s' = set_objects (root s) (objects (root s) @ [Node (next_id e) ''chassis'' [] a None []])"
proof -
  obtain r0 e0 n0 where x: "XenaChassis hw a port (e, root s) = (r0, (e0, n0))"
    by (metis prod_cases3)
  have n0: "n0 = set_objects (root s) (objects (root s) @ [Node (next_id e) ''chassis'' [] a None []])"
    using XenaChassis_tree [OF x] .
  have "root s' = n0"
    using assms x
    by (auto simp: add_chassis_def set_dict_keys_comp chassis_list_def str_def [abs_def]
        bind_def in_root_def lift_env_eq split: outcome.splits)
  with n0 show ?thesis by simp
qed

lemma demo1_run: "add_chassis hw_demo ''10.0.0.1'' 22611 ''xena'' (XenaSession ''me'') = (Return (), demo1)"
  by code_simp

lemma count_snoc_chassis:
  "length (filter (\<lambda>c. name c = a) (get_objects_by_type (set_objects n (objects n @ [Node i ''chassis'' ix a nf []])) ''chassis''))
    = Suc (length (filter (\<lambda>c. name c = a) (get_objects_by_type n ''chassis'')))"
  by (simp add: get_objects_by_type_def descendants_set_objects_snoc)

text \<open>
  C3: \<^verbatim>\<open>add_chassis\<close> with an address that already names a chassis of the session
  returns normally and changes nothing: no object is created and nothing is sent. Hence
  a second \<^verbatim>\<open>add_chassis\<close> with the same address, after a first one with any outcome, is
  such a call, and the session then has exactly one chassis of that name when it had none
  or one before.
\<close>

theorem add_chassis_idempotent:
  "(a \<in> name ` set (get_objects_by_type (root s) ''chassis'') \<longrightarrow>
      add_chassis hw a port password (e, s) = (Return (), (e, s))) \<and>
   (add_chassis hw a port password (e, s) = (r, (e1, s1)) \<longrightarrow>
      add_chassis hw2 a port2 password2 (e1, s1) = (Return (), (e1, s1)) \<and>
      length (filter (\<lambda>c. name c = a) (get_objects_by_type (root s1) ''chassis'')) =
        max 1 (length (filter (\<lambda>c. name c = a) (get_objects_by_type (root s) ''chassis''))))"
proof (intro conjI impI)
  assume "a \<in> name ` set (get_objects_by_type (root s) ''chassis'')"
  then show "add_chassis hw a port password (e, s) = (Return (), (e, s))"
    by (rule add_known)
next
  assume run: "add_chassis hw a port password (e, s) = (r, (e1, s1))"
  let ?n = "\<lambda>t. length (filter (\<lambda>c. name c = a) (get_objects_by_type (root t) ''chassis''))"
  have known: "a \<in> name ` set (get_objects_by_type (root s1) ''chassis'') \<and> ?n s1 = max 1 (?n s)"
  proof (cases "a \<in> name ` set (get_objects_by_type (root s) ''chassis'')")
    case True
    then have "s1 = s" using run add_known [of a s hw port password e] by simp
    moreover from True have "?n s \<noteq> 0"
      by (auto simp: filter_empty_conv)
    then have "max 1 (?n s) = ?n s" by arith
    ultimately show ?thesis using True by simp
  next
    case False
    then have z: "?n s = 0" by (auto simp: filter_empty_conv)
    have "?n s1 = Suc (?n s)"
      using add_chassis_tree [OF False run] by (simp add: count_snoc_chassis)
    moreover have "a \<in> name ` set (get_objects_by_type (root s1) ''chassis'')"
      using add_chassis_tree [OF False run]
      by (simp add: get_objects_by_type_def descendants_set_objects_snoc)
    ultimately show ?thesis using z by simp
  qed
  then show "add_chassis hw2 a port2 password2 (e1, s1) = (Return (), (e1, s1))"
    by (simp add: add_known)
  from known show "?n s1 = max 1 (?n s)" by simp
qed

theorem add_chassis_idempotent_witness:
  "add_chassis hw_demo ''10.0.0.1'' 22611 ''xena'' (XenaSession ''me'') = (Return (), demo1) \<and>
   ''10.0.0.1'' \<in> name ` set (get_objects_by_type (root (snd demo1)) ''chassis'') \<and>
   add_chassis hw_demo ''10.0.0.1'' 22611 ''xena'' demo1 = (Return (), demo1) \<and>
   length (filter (\<lambda>c. name c = ''10.0.0.1'') (get_objects_by_type (root (snd demo1)) ''chassis'')) = 1"
proof -
  have run: "add_chassis hw_demo ''10.0.0.1'' 22611 ''xena'' (fst (XenaSession ''me''), snd (XenaSession ''me''))
      = (Return (), (fst demo1, snd demo1))"
    using demo1_run by simp
  have known: "''10.0.0.1'' \<in> name ` set (get_objects_by_type (root (snd demo1)) ''chassis'')"
    by (simp add: demo1_def get_objects_by_type_def)
  have zero: "get_objects_by_type (root (snd (XenaSession ''me''))) ''chassis'' = []"
    by (simp add: XenaSession_def get_objects_by_type_def)
  from add_chassis_idempotent [of "''10.0.0.1''" "snd (XenaSession ''me'')" hw_demo 22611 "''xena''"
      "fst (XenaSession ''me'')" "Return ()" "fst demo1" "snd demo1" hw_demo 22611 "''xena''"]
  have "add_chassis hw_demo ''10.0.0.1'' 22611 ''xena'' (fst demo1, snd demo1) = (Return (), (fst demo1, snd demo1)) \<and>
      length (filter (\<lambda>c. name c = ''10.0.0.1'') (get_objects_by_type (root (snd demo1)) ''chassis'')) = 1"
    using run zero by simp
  with demo1_run known show ?thesis by simp
qed

section \<open>Reserving ports on a chassis\<close>

lemma command_Return:
  "command hw rq e = (Return u, e') \<longleftrightarrow> \<not> is_failure (hw (trace e) rq) \<and> e' = logged hw rq e"
  by (auto simp: command_eq is_failure_def split: reply.splits)

lemma command_Raise:
  "command hw rq e = (Raise err, e') \<longleftrightarrow> hw (trace e) rq = Failure err \<and> e' = logged hw rq e"
  by (auto simp: command_eq split: reply.splits)

lemma trace_logged [simp]: "trace (logged hw rq e) = trace e @ [(rq, hw (trace e) rq)]"
  by (simp add: logged_def)

lemma next_id_logged [simp]: "next_id (logged hw rq e) = next_id e"
  by (simp add: logged_def)

lemma default_name_set_objects [simp]: "default_name (set_objects c cs) ix = default_name c ix"
  by (simp add: default_name_def owner_address_def set_objects_def)

lemma objects_set_objects [simp]: "objects (set_objects c cs) = cs"
  by (simp add: set_objects_def)

lemma set_objects_twice [simp]: "set_objects (set_objects c cs) cs' = set_objects c cs'"
  by (simp add: set_objects_def)

lemma new_ports_set_objects [simp]: "new_ports (set_objects c cs) n ixs = new_ports c n ixs"
  by (induction ixs arbitrary: n) simp_all

lemma reserve_one_cases:
  assumes "reserve_one hw force loc (e, c) = (r, (e', c'))"
  defines "p \<equiv> Node (next_id e) ''port'' loc (default_name c loc) None []"
  shows "c' = set_objects c (objects c @ [p]) \<and> next_id e' = Suc (next_id e) \<and>
     (\<exists>evs. trace e' = trace e @ evs \<and>
        (case r of
           Return u \<Rightarrow> map fst evs = [PortReserve (target_of p) force, PortReset (target_of p)]
                        \<and> (\<forall>ev\<in>set evs. \<not> is_failure (snd ev))
         | Raise err \<Rightarrow>
             (\<exists>rp. evs = [(PortReserve (target_of p) force, Failure err)] \<or>
                   (evs = [(PortReserve (target_of p) force, rp), (PortReset (target_of p), Failure err)]
                    \<and> \<not> is_failure rp))))"
proof -
  let ?e1 = "e\<lparr>next_id := Suc (next_id e)\<rparr>"
  let ?c1 = "set_objects c (objects c @ [p])"
  have step: "reserve_one hw force loc (e, c) =
      bind (lift_env (port_reserve hw p force)) (\<lambda>_. lift_env (port_reset hw p)) (?e1, ?c1)"
    by (simp add: reserve_one_def XenaPort_def new_object_eq bind_def p_def)
  obtain r1 e1 where c1: "command hw (PortReserve (target_of p) force) ?e1 = (r1, e1)"
    by (metis surj_pair)
  show ?thesis
  proof (cases r1)
    case (Raise err)
    with c1 have "hw (trace ?e1) (PortReserve (target_of p) force) = Failure err"
      and "e1 = logged hw (PortReserve (target_of p) force) ?e1"
      by (simp_all add: command_Raise)
    moreover from Raise c1 have "reserve_one hw force loc (e, c) = (Raise err, (e1, ?c1))"
      by (simp add: step bind_def lift_env_eq port_reserve_def)
    ultimately show ?thesis using assms(1) by auto
  next
    case (Return u)
    with c1 have ok1: "\<not> is_failure (hw (trace ?e1) (PortReserve (target_of p) force))"
      and e1: "e1 = logged hw (PortReserve (target_of p) force) ?e1"
      by (simp_all add: command_Return)
    obtain r2 e2 where c2: "command hw (PortReset (target_of p)) e1 = (r2, e2)"
      by (metis surj_pair)
    from Return c1 c2 have res: "reserve_one hw force loc (e, c) = (r2, (e2, ?c1))"
      by (simp add: step bind_def lift_env_eq port_reserve_def port_reset_def)
    show ?thesis
    proof (cases r2)
      case (Return u2)
      with c2 have "\<not> is_failure (hw (trace e1) (PortReset (target_of p)))"
        and "e2 = logged hw (PortReset (target_of p)) e1"
        by (simp_all add: command_Return)
      then show ?thesis using assms(1) res Return ok1 e1 by auto
    next
      case (Raise err)
      with c2 have "hw (trace e1) (PortReset (target_of p)) = Failure err"
        and "e2 = logged hw (PortReset (target_of p)) e1"
        by (simp_all add: command_Raise)
      then show ?thesis using assms(1) res Raise ok1 e1 by auto
    qed
  qed
qed

lemma set_objects_same [simp]: "set_objects c (objects c) = c"
  by (cases c) (simp add: set_objects_def)

lemma reserve_requests_Cons:
  "reserve_requests force (p # ps) =
     PortReserve (target_of p) force # PortReset (target_of p) # reserve_requests force ps"
  by (simp add: reserve_requests_def)

lemma reserve_loop:
  assumes "for_each locs (reserve_one hw force) (e, c) = (r, (e', c'))"
  shows "\<exists>k evs rest. k \<le> length locs \<and>
      c' = set_objects c (objects c @ new_ports c (next_id e) (take k locs)) \<and>
      next_id e' = next_id e + k \<and> trace e' = trace e @ evs \<and>
      reserve_requests force (new_ports c (next_id e) locs) = map fst evs @ rest \<and>
      (\<forall>ev\<in>set (butlast evs). \<not> is_failure (snd ev)) \<and>
      (case r of
         Return u \<Rightarrow> k = length locs \<and> rest = [] \<and> (\<forall>ev\<in>set evs. \<not> is_failure (snd ev))
       | Raise err \<Rightarrow> evs \<noteq> [] \<and> snd (last evs) = Failure err)"
  using assms
proof (induction locs arbitrary: e c)
  case Nil
  then have "r = Return ()" "e' = e" "c' = c" by (simp_all add: return_def)
  then show ?case by (simp add: reserve_requests_def)
next
  case (Cons loc locs)
  let ?p = "Node (next_id e) ''port'' loc (default_name c loc) None []"
  obtain r1 e1 c1 where first: "reserve_one hw force loc (e, c) = (r1, (e1, c1))"
    by (metis prod_cases3)
  from reserve_one_cases [OF first] obtain evs1 where
    c1: "c1 = set_objects c (objects c @ [?p])" and n1: "next_id e1 = Suc (next_id e)" and
    t1: "trace e1 = trace e @ evs1" and
    o1: "case r1 of
           Return u \<Rightarrow> map fst evs1 = [PortReserve (target_of ?p) force, PortReset (target_of ?p)]
                        \<and> (\<forall>ev\<in>set evs1. \<not> is_failure (snd ev))
         | Raise err \<Rightarrow>
             (\<exists>rp. evs1 = [(PortReserve (target_of ?p) force, Failure err)] \<or>
                   (evs1 = [(PortReserve (target_of ?p) force, rp), (PortReset (target_of ?p), Failure err)]
                    \<and> \<not> is_failure rp))"
    by blast
  show ?case
  proof (cases r1)
    case (Raise err)
    with first Cons.prems have res: "r = Raise err" "e' = e1" "c' = c1"
      by (simp_all add: bind_def)
    from o1 Raise obtain rp where
      shape: "evs1 = [(PortReserve (target_of ?p) force, Failure err)] \<or>
        (evs1 = [(PortReserve (target_of ?p) force, rp), (PortReset (target_of ?p), Failure err)]
          \<and> \<not> is_failure rp)"
      by auto
    from shape have "\<exists>rest. reserve_requests force (new_ports c (next_id e) (loc # locs)) = map fst evs1 @ rest"
      by (auto simp: reserve_requests_Cons)
    then obtain rest where
      "reserve_requests force (new_ports c (next_id e) (loc # locs)) = map fst evs1 @ rest" ..
    moreover from shape have "\<forall>ev\<in>set (butlast evs1). \<not> is_failure (snd ev)"
      "evs1 \<noteq> []" "snd (last evs1) = Failure err"
      by auto
    ultimately show ?thesis
      using res c1 n1 t1
      by (intro exI [of _ "Suc 0"] exI [of _ evs1] exI [of _ rest]) simp
  next
    case (Return u)
    with first Cons.prems have rest_run: "for_each locs (reserve_one hw force) (e1, c1) = (r, (e', c'))"
      by (simp add: bind_def)
    from o1 Return have
      m1: "map fst evs1 = [PortReserve (target_of ?p) force, PortReset (target_of ?p)]" and
      f1: "\<forall>ev\<in>set evs1. \<not> is_failure (snd ev)"
      by simp_all
    from Cons.IH [OF rest_run] obtain k evs rest where
      k: "k \<le> length locs" and
      c': "c' = set_objects c1 (objects c1 @ new_ports c1 (next_id e1) (take k locs))" and
      n': "next_id e' = next_id e1 + k" and t': "trace e' = trace e1 @ evs" and
      rq: "reserve_requests force (new_ports c1 (next_id e1) locs) = map fst evs @ rest" and
      bl: "\<forall>ev\<in>set (butlast evs). \<not> is_failure (snd ev)" and
      oc: "case r of
         Return u \<Rightarrow> k = length locs \<and> rest = [] \<and> (\<forall>ev\<in>set evs. \<not> is_failure (snd ev))
       | Raise err \<Rightarrow> evs \<noteq> [] \<and> snd (last evs) = Failure err"
      by blast
    have a: "Suc k \<le> length (loc # locs)" using k by simp
    have b: "c' = set_objects c (objects c @ new_ports c (next_id e) (take (Suc k) (loc # locs)))"
      using c' c1 n1 by simp
    have c: "next_id e' = next_id e + Suc k" using n' n1 by simp
    have d: "trace e' = trace e @ (evs1 @ evs)" using t' t1 by simp
    have e: "reserve_requests force (new_ports c (next_id e) (loc # locs)) = map fst (evs1 @ evs) @ rest"
      using rq m1 c1 n1 by (simp add: reserve_requests_Cons)
    have f: "\<forall>ev\<in>set (butlast (evs1 @ evs)). \<not> is_failure (snd ev)"
      using bl f1 by (auto simp: butlast_append dest: in_set_butlastD)
    have g: "case r of
         Return u \<Rightarrow> Suc k = length (loc # locs) \<and> rest = [] \<and> (\<forall>ev\<in>set (evs1 @ evs). \<not> is_failure (snd ev))
       | Raise err \<Rightarrow> evs1 @ evs \<noteq> [] \<and> snd (last (evs1 @ evs)) = Failure err"
      using oc f1 by (auto split: outcome.splits)
    from a b c d e f g show ?thesis by blast
  qed
qed

lemma in_set_updateD:
  "(k, v) \<in> set (AList.update k' v' al) \<Longrightarrow> (k, v) = (k', v') \<or> (k, v) \<in> set al"
  by (induction al) (auto split: if_splits)

lemma distinct_fold_update:
  "distinct (map fst d0) \<Longrightarrow> distinct (map fst (fold (\<lambda>x d. AList.update (key x) x d) xs d0))"
  by (induction xs arbitrary: d0) (simp_all add: distinct_update)

lemma in_fold_updateD:
  "(k, v) \<in> set (fold (\<lambda>x d. AList.update (key x) x d) xs d0) \<Longrightarrow>
     (k = key v \<and> v \<in> set xs) \<or> (k, v) \<in> set d0"
  by (induction xs arbitrary: d0) (auto dest!: in_set_updateD)

lemma distinct_dict_comp: "distinct (map fst (dict_comp key xs))"
  by (simp add: dict_comp_def distinct_fold_update)

lemma in_dict_compD: "(k, v) \<in> set (dict_comp key xs) \<Longrightarrow> k = key v \<and> v \<in> set xs"
  using in_fold_updateD [of k v key xs "[]"] by (simp add: dict_comp_def)

lemma descendants_leaf [simp]: "descendants (Node i t ix nm nf []) = []"
  by simp

lemma descendants_new_ports: "concat (map (\<lambda>p. p # descendants p) (new_ports c n ixs)) = new_ports c n ixs"
  by (induction ixs arbitrary: n) simp_all

lemma descendants_set_objects_append:
  "descendants (set_objects c (objects c @ ps)) = descendants c @ concat (map (\<lambda>p. p # descendants p) ps)"
  by (cases c) (simp add: set_objects_def)

lemma chassis_reserve_ports_loop:
  "chassis_reserve_ports hw locs force =
     bind (for_each locs (reserve_one hw force))
       (\<lambda>_. (\<lambda>(e, self). return (chassis_ports self) (e, self)))"
  by (simp add: chassis_reserve_ports_def reserve_one_def [abs_def])

lemma chassis_reserve_ports_Return:
  assumes "chassis_reserve_ports hw locs force (e, c) = (Return d, (e', c'))"
  shows "c' = set_objects c (objects c @ new_ports c (next_id e) locs) \<and> d = chassis_ports c'
     \<and> next_id e' = next_id e + length locs"
proof -
  from assms obtain u where loop: "for_each locs (reserve_one hw force) (e, c) = (Return u, (e', c'))"
    and d: "d = chassis_ports c'"
    by (auto simp: chassis_reserve_ports_loop bind_eq_Return return_def)
  from reserve_loop [OF loop] show ?thesis using d by auto
qed

text \<open>
  C5: the requests of \<^verbatim>\<open>XenaChassis.reserve_ports\<close> are an initial part of "reserve,
  reset" for one new port per location, in the order of the locations. Every exchange but
  the last succeeded, so every reset directly follows the successful reservation of the
  same port. When the call returns, the whole sequence was sent without a failure and the
  result is the port dictionary of the chassis with the new ports; when it raises, the last
  exchange is the one that failed.
\<close>

theorem chassis_reserve_then_reset:
  assumes "chassis_reserve_ports hw locations force (e, c) = (r, (e', c'))"
  shows "\<exists>evs rest. trace e' = trace e @ evs \<and>
      reserve_requests force (new_ports c (next_id e) locations) = map fst evs @ rest \<and>
      (\<forall>ev\<in>set (butlast evs). \<not> is_failure (snd ev)) \<and>
      (case r of
         Return d \<Rightarrow> rest = [] \<and> (\<forall>ev\<in>set evs. \<not> is_failure (snd ev)) \<and>
           c' = set_objects c (objects c @ new_ports c (next_id e) locations) \<and>
           d = chassis_ports c'
       | Raise err \<Rightarrow> evs \<noteq> [] \<and> snd (last evs) = Failure err)"
proof -
  obtain r0 e0 c0 where loop: "for_each locations (reserve_one hw force) (e, c) = (r0, (e0, c0))"
    by (metis prod_cases3)
  from reserve_loop [OF loop] obtain k evs rest where
    k: "k \<le> length locations" and
    c0: "c0 = set_objects c (objects c @ new_ports c (next_id e) (take k locations))" and
    t0: "trace e0 = trace e @ evs" and
    rq: "reserve_requests force (new_ports c (next_id e) locations) = map fst evs @ rest" and
    bl: "\<forall>ev\<in>set (butlast evs). \<not> is_failure (snd ev)" and
    oc: "case r0 of
         Return u \<Rightarrow> k = length locations \<and> rest = [] \<and> (\<forall>ev\<in>set evs. \<not> is_failure (snd ev))
       | Raise err \<Rightarrow> evs \<noteq> [] \<and> snd (last evs) = Failure err"
    by blast
  have "case r of
         Return d \<Rightarrow> rest = [] \<and> (\<forall>ev\<in>set evs. \<not> is_failure (snd ev)) \<and>
           c' = set_objects c (objects c @ new_ports c (next_id e) locations) \<and>
           d = chassis_ports c'
       | Raise err \<Rightarrow> evs \<noteq> [] \<and> snd (last evs) = Failure err"
    and "e' = e0"
    using assms loop oc c0
    by (auto simp: chassis_reserve_ports_loop bind_def return_def split: outcome.splits)
  with t0 rq bl show ?thesis by blast
qed

lemma demo_reserved_run:
  "chassis_reserve_ports hw_demo [''0/1'', ''0/2''] False (demo_env, demo_chassis) = demo_reserved"
  by code_simp

theorem chassis_reserve_then_reset_witness:
  "chassis_reserve_ports hw_demo [''0/1'', ''0/2''] False (demo_env, demo_chassis) = demo_reserved \<and>
   (\<exists>evs. trace (fst (snd demo_reserved)) = trace demo_env @ evs \<and>
      reserve_requests False (new_ports demo_chassis 2 [''0/1'', ''0/2'']) = map fst evs \<and>
      (\<forall>ev\<in>set evs. \<not> is_failure (snd ev)) \<and>
      fst demo_reserved = Return (chassis_ports (snd (snd demo_reserved))))"
proof -
  have run: "chassis_reserve_ports hw_demo [''0/1'', ''0/2''] False (demo_env, demo_chassis) =
      (Return [(''10.0.0.1/0/1'', demo_port 2 ''0/1''), (''10.0.0.1/0/2'', demo_port 3 ''0/2'')],
       (fst (snd demo_reserved), snd (snd demo_reserved)))"
    by (simp add: demo_reserved_run) (simp add: demo_reserved_def)
  from chassis_reserve_then_reset [OF run]
  have "\<exists>evs. trace (fst (snd demo_reserved)) = trace demo_env @ evs \<and>
      reserve_requests False (new_ports demo_chassis 2 [''0/1'', ''0/2'']) = map fst evs \<and>
      (\<forall>ev\<in>set evs. \<not> is_failure (snd ev)) \<and>
      fst demo_reserved = Return (chassis_ports (snd (snd demo_reserved)))"
    by (auto simp: demo_env_def demo_reserved_def)
  with demo_reserved_run show ?thesis by simp
qed

section \<open>Reserving ports in a session\<close>

lemma set_descendants_Node:
  "set (descendants (Node i ty ix nm nf cs)) = (\<Union>c\<in>set cs. set (nodes c))"
  by (simp add: nodes_def)

lemma set_nodes_Node:
  "set (nodes (Node i ty ix nm nf cs)) = insert (Node i ty ix nm nf cs) (\<Union>c\<in>set cs. set (nodes c))"
  by (simp add: nodes_def)

lemma nodes_replace_node:
  "x \<in> set (nodes (replace_node new t)) \<Longrightarrow>
     label x \<in> label ` set (nodes t) \<or> label x \<in> label ` set (nodes new)"
proof (induction t arbitrary: x)
  case (Node i ty ix nm nf cs)
  show ?case
  proof (cases "i = obj_id new")
    case True
    with Node.prems show ?thesis by simp
  next
    case False
    with Node.prems have "x = Node i ty ix nm nf (map (replace_node new) cs) \<or>
        (\<exists>c\<in>set cs. x \<in> set (nodes (replace_node new c)))"
      by (simp add: set_nodes_Node)
    then show ?thesis
    proof
      assume "x = Node i ty ix nm nf (map (replace_node new) cs)"
      then have "label x = label (Node i ty ix nm nf cs)" by (simp add: label_def)
      then show ?thesis by (simp add: set_nodes_Node)
    next
      assume "\<exists>c\<in>set cs. x \<in> set (nodes (replace_node new c))"
      then obtain c where c: "c \<in> set cs" and x: "x \<in> set (nodes (replace_node new c))" ..
      from Node.IH [OF c x] show ?thesis
      proof
        assume "label x \<in> label ` set (nodes c)"
        with c have "label x \<in> label ` set (nodes (Node i ty ix nm nf cs))"
          unfolding set_nodes_Node by blast
        then show ?thesis ..
      next
        assume "label x \<in> label ` set (nodes new)"
        then show ?thesis ..
      qed
    qed
  qed
qed

lemma descendants_replace_node:
  assumes "x \<in> set (descendants (replace_node new t))"
  shows "label x \<in> label ` set (descendants t) \<or> label x \<in> label ` set (nodes new)"
proof (cases t)
  case (Node i ty ix nm nf cs)
  show ?thesis
  proof (cases "i = obj_id new")
    case True
    then have "replace_node new t = new" unfolding Node by simp
    with assms have "x \<in> set (nodes new)" by (simp add: nodes_def)
    then show ?thesis by blast
  next
    case False
    then have "descendants (replace_node new t) =
        descendants (Node i ty ix nm nf (map (replace_node new) cs))"
      unfolding Node by simp
    then have "x \<in> set (descendants (Node i ty ix nm nf (map (replace_node new) cs)))"
      using assms by simp
    then have "x \<in> (\<Union>c\<in>set (map (replace_node new) cs). set (nodes c))"
      unfolding set_descendants_Node .
    then obtain c where c: "c \<in> set cs" and x: "x \<in> set (nodes (replace_node new c))"
      by auto
    from nodes_replace_node [OF x] show ?thesis
    proof
      assume "label x \<in> label ` set (nodes c)"
      with c have "label x \<in> label ` (\<Union>c\<in>set cs. set (nodes c))"
        by blast
      then have "label x \<in> label ` set (descendants t)"
        unfolding Node set_descendants_Node .
      then show ?thesis ..
    next
      assume "label x \<in> label ` set (nodes new)"
      then show ?thesis ..
    qed
  qed
qed

lemma descendants_trans:
  "c \<in> set (descendants t) \<Longrightarrow> set (descendants c) \<subseteq> set (descendants t)"
proof (induction t)
  case (Node i ty ix nm nf cs)
  from Node.prems have "c \<in> (\<Union>k\<in>set cs. set (nodes k))"
    by (simp only: set_descendants_Node)
  then obtain k where k: "k \<in> set cs" and c: "c \<in> set (nodes k)"
    by auto
  have "set (descendants c) \<subseteq> set (nodes k)"
  proof (cases "c = k")
    case True
    then show ?thesis by (auto simp: nodes_def)
  next
    case False
    with c have "c \<in> set (descendants k)" by (simp add: nodes_def)
    from Node.IH [OF k this] show ?thesis by (auto simp: nodes_def)
  qed
  with k show ?case unfolding set_descendants_Node by blast
qed

lemma dict_get_eq:
  "dict_get d k s = (case map_of d k of None \<Rightarrow> (Raise KeyError, s) | Some v \<Rightarrow> (Return v, s))"
  by (simp add: dict_get_def raise_def return_def split: option.splits)

lemma map_of_None_keys: "map_of d k = None \<longleftrightarrow> k \<notin> set (dict_keys d)"
  by (simp add: dict_keys_def map_of_eq_None_iff)

lemma chassis_list_keys:
  "set (dict_keys (chassis_list s)) = name ` set (get_objects_by_type (root s) ''chassis'')"
  by (simp add: chassis_list_def set_dict_keys_comp str_def [abs_def])

lemma chassis_list_value:
  assumes "map_of (chassis_list s) ip = Some c"
  shows "c \<in> set (get_objects_by_type (root s) ''chassis'') \<and> name c = ip"
proof -
  from assms have "(ip, c) \<in> set (dict_comp str (get_objects_by_type (root s) ''chassis''))"
    unfolding chassis_list_def by (rule map_of_SomeD)
  from in_dict_compD [OF this] show ?thesis by (simp add: str_def)
qed

lemma session_reserve_location_cases:
  assumes "session_reserve_location hw force loc (e, s) = (r, (e', s'))"
  shows "(e' = e \<and> s' = s \<and> (r = Raise ValueError \<or> r = Raise KeyError)) \<or>
     (\<exists>ip m p c r0 c'. split_on CHR ''/'' loc = [ip, m, p] \<and> map_of (chassis_list s) ip = Some c \<and>
        chassis_reserve_ports hw [m @ ''/'' @ p] force (e, c) = (r0, (e', c')) \<and>
        s' = s\<lparr>root := replace_node c' (root s)\<rparr> \<and>
        (case r0 of Return d \<Rightarrow> r = Return () | Raise err \<Rightarrow> r = Raise err))"
proof (cases "\<exists>ip m p. split_on CHR ''/'' loc = [ip, m, p]")
  case False
  then have "session_reserve_location hw force loc = raise ValueError"
    by (auto simp: session_reserve_location_def split: list.splits)
  with assms show ?thesis by (simp add: raise_def)
next
  case True
  then obtain ip m p where sp: "split_on CHR ''/'' loc = [ip, m, p]" by blast
  show ?thesis
  proof (cases "map_of (chassis_list s) ip")
    case None
    with sp assms show ?thesis
      by (simp add: session_reserve_location_def bind_def dict_get_eq)
  next
    case (Some c)
    obtain r0 e0 c' where run: "chassis_reserve_ports hw [m @ ''/'' @ p] force (e, c) = (r0, (e0, c'))"
      by (metis prod_cases3)
    have "session_reserve_location hw force loc (e, s) =
        ((case r0 of Return d \<Rightarrow> Return () | Raise err \<Rightarrow> Raise err),
         (e0, s\<lparr>root := replace_node c' (root s)\<rparr>))"
      using sp Some run
      by (simp add: session_reserve_location_def bind_def dict_get_eq in_root_def in_object_def
          return_def split: outcome.splits)
    with assms have "e' = e0" "s' = s\<lparr>root := replace_node c' (root s)\<rparr>"
      "r = (case r0 of Return d \<Rightarrow> Return () | Raise err \<Rightarrow> Raise err)"
      by simp_all
    with sp Some run show ?thesis by (auto split: outcome.splits)
  qed
qed

lemma reserve_requests_kind: "rq \<in> set (reserve_requests force ps) \<Longrightarrow> reserve_or_reset rq"
  by (auto simp: reserve_requests_def reserve_or_reset_def)

lemma chassis_reserve_ports_any:
  assumes "chassis_reserve_ports hw locs force (e, c) = (r, (e', c'))"
  shows "\<exists>k evs. c' = set_objects c (objects c @ new_ports c (next_id e) (take k locs)) \<and>
     trace e' = trace e @ evs \<and> (\<forall>ev\<in>set evs. reserve_or_reset (fst ev))"
proof -
  obtain r0 e0 c0 where loop: "for_each locs (reserve_one hw force) (e, c) = (r0, (e0, c0))"
    by (metis prod_cases3)
  have same: "e' = e0 \<and> c' = c0"
    using assms loop
    by (auto simp: chassis_reserve_ports_loop bind_def return_def split: outcome.splits)
  from reserve_loop [OF loop] obtain k evs rest where
    c0: "c0 = set_objects c (objects c @ new_ports c (next_id e) (take k locs))" and
    t0: "trace e0 = trace e @ evs" and
    rq: "reserve_requests force (new_ports c (next_id e) locs) = map fst evs @ rest"
    by blast
  have "\<forall>ev\<in>set evs. reserve_or_reset (fst ev)"
  proof
    fix ev assume "ev \<in> set evs"
    then have "fst ev \<in> set (map fst evs @ rest)" by simp
    then have "fst ev \<in> set (reserve_requests force (new_ports c (next_id e) locs))"
      by (simp only: rq)
    then show "reserve_or_reset (fst ev)" by (rule reserve_requests_kind)
  qed
  with c0 t0 same show ?thesis by blast
qed

lemma new_ports_type: "p \<in> set (new_ports c n ixs) \<Longrightarrow> obj_type p = ''port''"
  by (induction ixs arbitrary: n) auto

lemma nodes_after_new_ports:
  "set (nodes (set_objects c (objects c @ new_ports c n ixs))) =
     insert (set_objects c (objects c @ new_ports c n ixs)) (set (descendants c) \<union> set (new_ports c n ixs))"
  by (simp add: nodes_def descendants_set_objects_append descendants_new_ports)

lemma label_set_objects [simp]: "label (set_objects c cs) = label c"
  by (simp add: label_def set_objects_def)

lemma session_reserve_location_effect:
  assumes "session_reserve_location hw force loc (e, s) = (r, (e', s'))"
  shows "name ` set (get_objects_by_type (root s') ''chassis'')
          \<subseteq> name ` set (get_objects_by_type (root s) ''chassis'') \<and>
     (\<exists>evs. trace e' = trace e @ evs \<and> (\<forall>ev\<in>set evs. reserve_or_reset (fst ev)))"
  using session_reserve_location_cases [OF assms]
proof
  assume "e' = e \<and> s' = s \<and> (r = Raise ValueError \<or> r = Raise KeyError)"
  then show ?thesis by simp
next
  assume "\<exists>ip m p c r0 c'. split_on CHR ''/'' loc = [ip, m, p] \<and> map_of (chassis_list s) ip = Some c \<and>
        chassis_reserve_ports hw [m @ ''/'' @ p] force (e, c) = (r0, (e', c')) \<and>
        s' = s\<lparr>root := replace_node c' (root s)\<rparr> \<and>
        (case r0 of Return d \<Rightarrow> r = Return () | Raise err \<Rightarrow> r = Raise err)"
  then obtain ip m p c r0 c' where
    look: "map_of (chassis_list s) ip = Some c" and
    run: "chassis_reserve_ports hw [m @ ''/'' @ p] force (e, c) = (r0, (e', c'))" and
    s': "s' = s\<lparr>root := replace_node c' (root s)\<rparr>"
    by blast
  from chassis_reserve_ports_any [OF run] obtain k evs where
    c': "c' = set_objects c (objects c @ new_ports c (next_id e) (take k [m @ ''/'' @ p]))" and
    tr: "trace e' = trace e @ evs" "\<forall>ev\<in>set evs. reserve_or_reset (fst ev)"
    by blast
  from chassis_list_value [OF look] have cin: "c \<in> set (descendants (root s))"
    and cty: "obj_type c = ''chassis''"
    by (simp_all add: get_objects_by_type_def)
  have "name x \<in> name ` set (get_objects_by_type (root s) ''chassis'')"
    if x: "x \<in> set (descendants (replace_node c' (root s)))" and ty: "obj_type x = ''chassis''" for x
  proof -
    from descendants_replace_node [OF x]
    have "label x \<in> label ` set (descendants (root s))"
    proof
      assume "label x \<in> label ` set (descendants (root s))"
      then show ?thesis .
    next
      assume "label x \<in> label ` set (nodes c')"
      then obtain y where y: "y \<in> set (nodes c')" and xy: "label x = label y" by blast
      from y have "y = c' \<or> y \<in> set (descendants c) \<or> y \<in> set (new_ports c (next_id e) (take k [m @ ''/'' @ p]))"
        unfolding c' nodes_after_new_ports by blast
      then show ?thesis
      proof (elim disjE)
        assume "y = c'"
        then have "label x = label c" using xy c' by simp
        with cin show ?thesis by blast
      next
        assume "y \<in> set (descendants c)"
        with descendants_trans [OF cin] have "y \<in> set (descendants (root s))" by blast
        with xy show ?thesis by blast
      next
        assume "y \<in> set (new_ports c (next_id e) (take k [m @ ''/'' @ p]))"
        then have "obj_type y = ''port''" by (rule new_ports_type)
        with xy ty show ?thesis by (simp add: label_def)
      qed
    qed
    then obtain z where "z \<in> set (descendants (root s))" "label x = label z" by blast
    with ty show ?thesis by (auto simp: label_def get_objects_by_type_def)
  qed
  then have "name ` set (get_objects_by_type (root s') ''chassis'')
          \<subseteq> name ` set (get_objects_by_type (root s) ''chassis'')"
    unfolding s' by (auto simp: get_objects_by_type_def)
  with tr show ?thesis by blast
qed

lemma session_reserve_loop_effect:
  assumes "for_each locs (session_reserve_location hw force) (e, s) = (r, (e', s'))"
  shows "name ` set (get_objects_by_type (root s') ''chassis'')
          \<subseteq> name ` set (get_objects_by_type (root s) ''chassis'') \<and>
     (\<exists>evs. trace e' = trace e @ evs \<and> (\<forall>ev\<in>set evs. reserve_or_reset (fst ev)))"
  using assms
proof (induction locs arbitrary: e s)
  case Nil
  then show ?case by (simp add: return_def)
next
  case (Cons loc locs)
  obtain r1 e1 s1 where first: "session_reserve_location hw force loc (e, s) = (r1, (e1, s1))"
    by (metis prod_cases3)
  note f = session_reserve_location_effect [OF first]
  show ?case
  proof (cases r1)
    case (Raise err)
    with first Cons.prems have "e' = e1" "s' = s1" by (simp_all add: bind_def)
    with f show ?thesis by simp
  next
    case (Return u)
    with first Cons.prems have "for_each locs (session_reserve_location hw force) (e1, s1) = (r, (e', s'))"
      by (simp add: bind_def)
    from Cons.IH [OF this] f show ?thesis by fastforce
  qed
qed

text \<open>
  C9: when the locations before one of the form address/module/port, whose address names
  no chassis of the session, are reserved without an error, \<^verbatim>\<open>XenaSession.reserve_ports\<close>
  raises \<open>KeyError\<close> (Python's failed dictionary lookup, not \<open>NotFound\<close>) at that
  location, and the state it leaves is the state after those reservations: every request
  sent since the call began is a reserve or a reset, none a release.
\<close>

theorem session_reserve_unknown_chassis:
  assumes sp: "split_on CHR ''/'' location = [ip, module, port]"
    and unknown: "ip \<notin> name ` set (get_objects_by_type (root s) ''chassis'')"
    and earlier: "session_reserve_ports hw earlier force (e, s) = (Return d, (e1, s1))"
  shows "session_reserve_ports hw (earlier @ location # later) force (e, s) = (Raise KeyError, (e1, s1)) \<and>
     (\<exists>evs. trace e1 = trace e @ evs \<and> (\<forall>ev\<in>set evs. reserve_or_reset (fst ev)))"
proof -
  from earlier obtain u where
    loop: "for_each earlier (session_reserve_location hw force) (e, s) = (Return u, (e1, s1))"
    by (auto simp: session_reserve_ports_def bind_eq_Return return_def)
  note eff = session_reserve_loop_effect [OF loop]
  with unknown have "ip \<notin> set (dict_keys (chassis_list s1))"
    unfolding chassis_list_keys by blast
  then have "map_of (chassis_list s1) ip = None"
    by (simp add: map_of_None_keys)
  with sp have here: "session_reserve_location hw force location (e1, s1) = (Raise KeyError, (e1, s1))"
    by (simp add: session_reserve_location_def bind_def dict_get_eq)
  have "for_each (earlier @ location # later) (session_reserve_location hw force) (e, s)
      = (Raise KeyError, (e1, s1))"
    using loop here by (simp add: for_each_append bind_def)
  then have "session_reserve_ports hw (earlier @ location # later) force (e, s) = (Raise KeyError, (e1, s1))"
    by (simp add: session_reserve_ports_def bind_def)
  with eff show ?thesis by blast
qed

lemma demo_three_run:
  "session_reserve_ports hw_demo [''10.0.0.1/0/1'', ''10.0.0.2/0/0'', ''10.0.0.1/0/2''] False demo_two = demo_three"
  by code_simp

theorem session_reserve_unknown_chassis_witness:
  "split_on CHR ''/'' ''10.0.0.9/0/0'' = [''10.0.0.9'', ''0'', ''0''] \<and>
   ''10.0.0.9'' \<notin> name ` set (get_objects_by_type (root (snd demo_two)) ''chassis'') \<and>
   session_reserve_ports hw_demo [''10.0.0.1/0/1'', ''10.0.0.2/0/0'', ''10.0.0.1/0/2''] False demo_two = demo_three \<and>
   session_reserve_ports hw_demo
     ([''10.0.0.1/0/1'', ''10.0.0.2/0/0'', ''10.0.0.1/0/2''] @ ''10.0.0.9/0/0'' # [''10.0.0.1/0/3'']) False
     (fst demo_two, snd demo_two) = (Raise KeyError, (fst (snd demo_three), snd (snd demo_three))) \<and>
   (\<exists>evs. trace (fst (snd demo_three)) = trace (fst demo_two) @ evs \<and>
      (\<forall>ev\<in>set evs. reserve_or_reset (fst ev)))"
proof -
  have sp: "split_on CHR ''/'' ''10.0.0.9/0/0'' = [''10.0.0.9'', ''0'', ''0'']"
    by simp
  have unknown: "''10.0.0.9'' \<notin> name ` set (get_objects_by_type (root (snd demo_two)) ''chassis'')"
    by (simp add: demo_two_def get_objects_by_type_def)
  have run: "session_reserve_ports hw_demo [''10.0.0.1/0/1'', ''10.0.0.2/0/0'', ''10.0.0.1/0/2''] False
      (fst demo_two, snd demo_two) =
      (Return [(''10.0.0.1/0/1'', Node 3 ''port'' ''0/1'' ''10.0.0.1/0/1'' None []),
              (''10.0.0.1/0/2'', Node 5 ''port'' ''0/2'' ''10.0.0.1/0/2'' None []),
              (''10.0.0.2/0/0'', Node 4 ''port'' ''0/0'' ''10.0.0.2/0/0'' None [])],
       (fst (snd demo_three), snd (snd demo_three)))"
    using demo_three_run by (simp add: demo_three_def)
  note session_reserve_unknown_chassis [OF sp unknown run, of "[''10.0.0.1/0/3'']"]
  with sp unknown demo_three_run show ?thesis by (intro conjI) simp_all
qed

section \<open>Inventory\<close>

lemma get_attributes_Return:
  "get_attributes hw self prefix e = (Return vs, e') \<longleftrightarrow>
     hw (trace e) (GetAttributes (target_of self) prefix) = Values vs \<and>
     e' = logged hw (GetAttributes (target_of self) prefix) e"
  by (auto simp: get_attributes_def exchange_def logged_def Let_def split: reply.splits)

lemma get_attribute_Return:
  "get_attribute hw self attr e = (Return v, e') \<longleftrightarrow>
     hw (trace e) (GetAttribute (target_of self) attr) = Value v \<and>
     e' = logged hw (GetAttribute (target_of self) attr) e"
  by (auto simp: get_attribute_def exchange_def logged_def Let_def split: reply.splits)

lemma int_of_Return: "int_of s st = (Return i, st') \<longleftrightarrow> py_int s = Some i \<and> st' = st"
  by (auto simp: int_of_def raise_def return_def split: option.splits)

lemma dict_get_Return: "dict_get d k st = (Return v, st') \<longleftrightarrow> map_of d k = Some v \<and> st' = st"
  by (auto simp: dict_get_eq split: option.splits)

lemma lift_env_Return:
  "lift_env m (e, t) = (Return x, (e', t')) \<longleftrightarrow> m e = (Return x, e') \<and> t' = t"
  by (auto simp: lift_env_eq) (metis fst_conv snd_conv prod.collapse)+

lemma module_port_count_Return:
  assumes "module_port_count hw self m_info e = (Return cnt, e')"
  shows "\<exists>cfptype a. map_of m_info ''m_cfptype'' = Some cfptype \<and>
     hw (trace e) (GetAttribute (target_of self)
        (if py_in ''NOTCFP'' cfptype then ''m_portcount'' else ''m_cfpconfig'')) = Value a \<and>
     e' = logged hw (GetAttribute (target_of self)
        (if py_in ''NOTCFP'' cfptype then ''m_portcount'' else ''m_cfpconfig'')) e \<and>
     (if py_in ''NOTCFP'' cfptype then py_int a = Some cnt
      else split_ws a \<noteq> [] \<and> py_int (hd (split_ws a)) = Some cnt)"
proof -
  from assms obtain cfptype where ty: "map_of m_info ''m_cfptype'' = Some cfptype" and
    rest: "(if py_in ''NOTCFP'' cfptype
          then bind (get_attribute hw self ''m_portcount'') (\<lambda>a. int_of a)
          else bind (get_attribute hw self ''m_cfpconfig'')
                 (\<lambda>a. case split_ws a of [] \<Rightarrow> raise IndexError | x # _ \<Rightarrow> int_of x)) e
        = (Return cnt, e')"
    unfolding module_port_count_def bind_eq_Return dict_get_Return by blast
  show ?thesis
  proof (cases "py_in ''NOTCFP'' cfptype")
    case True
    with rest obtain a where "hw (trace e) (GetAttribute (target_of self) ''m_portcount'') = Value a"
      "e' = logged hw (GetAttribute (target_of self) ''m_portcount'') e" "py_int a = Some cnt"
      by (auto simp: bind_eq_Return get_attribute_Return int_of_Return)
    with True ty show ?thesis by simp
  next
    case False
    with rest obtain a e1 where a: "hw (trace e) (GetAttribute (target_of self) ''m_cfpconfig'') = Value a"
      "e1 = logged hw (GetAttribute (target_of self) ''m_cfpconfig'') e" and
      i: "(case split_ws a of [] \<Rightarrow> raise IndexError | x # _ \<Rightarrow> int_of x) e1 = (Return cnt, e')"
      by (auto simp: bind_eq_Return get_attribute_Return)
    from i have "split_ws a \<noteq> [] \<and> py_int (hd (split_ws a)) = Some cnt \<and> e' = e1"
      by (cases "split_ws a") (auto simp: raise_def int_of_Return)
    with False ty a show ?thesis by simp
  qed
qed

lemma index_set_objects [simp]: "index (set_objects c cs) = index c"
  by (simp add: set_objects_def)

lemma port_index_set_objects [simp]: "port_index (set_objects c cs) i = port_index c i"
  by (simp add: port_index_def)

lemma inventory_port_Return:
  assumes "inventory_port hw i (e, m) = (Return (), (e', m'))"
  shows "m' = set_objects m (objects m @ new_ports m (next_id e) [port_index m i]) \<and>
     next_id e' = Suc (next_id e)"
proof -
  let ?p = "Node (next_id e) ''port'' (port_index m i) (default_name m (port_index m i)) None []"
  have "inventory_port hw i (e, m) =
      lift_env (port_inventory hw ?p) (e\<lparr>next_id := Suc (next_id e)\<rparr>, set_objects m (objects m @ [?p]))"
    by (simp add: inventory_port_def bind_def XenaPort_def new_object_eq ref_def port_index_def)
  with assms show ?thesis
    by (auto simp: lift_env_Return port_inventory_def command_Return)
qed

lemma inventory_loop_Return:
  assumes "for_each is (inventory_port hw) (e, m) = (Return (), (e', m'))"
  shows "m' = set_objects m (objects m @ new_ports m (next_id e) (map (port_index m) is)) \<and>
     next_id e' = next_id e + length is"
  using assms
proof (induction "is" arbitrary: e m)
  case Nil
  then show ?case by (simp add: return_def)
next
  case (Cons i "is")
  from Cons.prems obtain e1 m1 where
    first: "inventory_port hw i (e, m) = (Return (), (e1, m1))" and
    rest: "for_each is (inventory_port hw) (e1, m1) = (Return (), (e', m'))"
    by (auto simp: bind_eq_Return)
  from inventory_port_Return [OF first] Cons.IH [OF rest] show ?case by simp
qed

lemma module_inventory_loop:
  "module_inventory hw =
     bind (\<lambda>(e, self). lift_env (get_attributes hw self ''m_info'') (e, self))
       (\<lambda>m_info.
          bind (\<lambda>(e, self). return () (e, set_info self m_info))
            (\<lambda>_. bind (\<lambda>(e, self). lift_env (module_port_count hw self m_info) (e, self))
               (\<lambda>m_portcount. for_each [0..<nat m_portcount] (inventory_port hw))))"
  by (simp add: module_inventory_def inventory_port_def [abs_def])

lemma target_of_set_info [simp]: "target_of (set_info m i) = target_of m"
  by (simp add: target_of_def set_info_def)

lemma set_info_simps [simp]:
  "objects (set_info m i) = objects m" "index (set_info m i) = index m"
  "default_name (set_info m i) ix = default_name m ix" "info (set_info m i) = Some i"
  by (simp_all add: set_info_def default_name_def owner_address_def)

lemma new_ports_set_info [simp]: "new_ports (set_info m i) n ixs = new_ports m n ixs"
  by (induction ixs arbitrary: n) simp_all

lemma port_index_set_info [simp]: "port_index (set_info m i) = port_index m"
  by (rule ext) (simp add: port_index_def)

lemma module_inventory_Return:
  assumes "module_inventory hw (e, m) = (Return (), (e', m'))"
  shows "\<exists>m_info cfptype a cnt.
     hw (trace e) (GetAttributes (target_of m) ''m_info'') = Values m_info \<and>
     map_of m_info ''m_cfptype'' = Some cfptype \<and>
     hw (trace e @ [(GetAttributes (target_of m) ''m_info'', Values m_info)])
        (GetAttribute (target_of m)
           (if py_in ''NOTCFP'' cfptype then ''m_portcount'' else ''m_cfpconfig'')) = Value a \<and>
     (if py_in ''NOTCFP'' cfptype then py_int a = Some cnt
      else split_ws a \<noteq> [] \<and> py_int (hd (split_ws a)) = Some cnt) \<and>
     m' = set_objects (set_info m m_info)
            (objects m @ new_ports m (next_id e) (map (port_index m) [0..<nat cnt]))"
proof -
  from assms obtain m_info e1 where
    q: "get_attributes hw m ''m_info'' e = (Return m_info, e1)" and
    r1: "bind (\<lambda>(e, self). lift_env (module_port_count hw self m_info) (e, self))
           (\<lambda>m_portcount. for_each [0..<nat m_portcount] (inventory_port hw)) (e1, set_info m m_info)
         = (Return (), (e', m'))"
    unfolding module_inventory_loop bind_eq_Return
    by (auto simp: lift_env_Return return_def)
  from q have v: "hw (trace e) (GetAttributes (target_of m) ''m_info'') = Values m_info"
    and e1: "e1 = logged hw (GetAttributes (target_of m) ''m_info'') e"
    by (simp_all add: get_attributes_Return)
  from r1 obtain cnt e2 where
    pc: "module_port_count hw (set_info m m_info) m_info e1 = (Return cnt, e2)" and
    loop: "for_each [0..<nat cnt] (inventory_port hw) (e2, set_info m m_info) = (Return (), (e', m'))"
    unfolding bind_eq_Return by (auto simp: lift_env_Return)
  from module_port_count_Return [OF pc] obtain cfptype a where
    ty: "map_of m_info ''m_cfptype'' = Some cfptype" and
    a: "hw (trace e1) (GetAttribute (target_of m)
        (if py_in ''NOTCFP'' cfptype then ''m_portcount'' else ''m_cfpconfig'')) = Value a" and
    e2: "e2 = logged hw (GetAttribute (target_of m)
        (if py_in ''NOTCFP'' cfptype then ''m_portcount'' else ''m_cfpconfig'')) e1" and
    c: "if py_in ''NOTCFP'' cfptype then py_int a = Some cnt
      else split_ws a \<noteq> [] \<and> py_int (hd (split_ws a)) = Some cnt"
    by auto
  have tr: "trace e1 = trace e @ [(GetAttributes (target_of m) ''m_info'', Values m_info)]"
    using e1 v by simp
  have n: "next_id e2 = next_id e" using e1 e2 by simp
  from inventory_loop_Return [OF loop]
  have "m' = set_objects (set_info m m_info)
            (objects m @ new_ports m (next_id e) (map (port_index m) [0..<nat cnt]))"
    using n by simp
  with v ty a c tr show ?thesis by (metis (no_types))
qed


text \<open>
  C8: when \<^verbatim>\<open>XenaModule.inventory\<close> returns, the hardware answered the query
  \<^verbatim>\<open>m_info\<close> with a mapping that has the key \<^verbatim>\<open>m_cfptype\<close>; the port count is the
  integer value of the attribute \<^verbatim>\<open>m_portcount\<close> when that type contains
  \<^verbatim>\<open>NOTCFP\<close>, and otherwise the integer value of the first whitespace-separated field of
  the attribute \<^verbatim>\<open>m_cfpconfig\<close>; and the module has got exactly one new port object for
  every index below the count, in order, with the index module-index/port-index (and the
  name made from it).
\<close>

theorem module_inventory_ports:
  assumes "module_inventory hw (e, m) = (Return (), (e', m'))"
  shows "\<exists>m_info cfptype a cnt.
     hw (trace e) (GetAttributes (target_of m) ''m_info'') = Values m_info \<and>
     map_of m_info ''m_cfptype'' = Some cfptype \<and>
     hw (trace e @ [(GetAttributes (target_of m) ''m_info'', Values m_info)])
        (GetAttribute (target_of m)
           (if py_in ''NOTCFP'' cfptype then ''m_portcount'' else ''m_cfpconfig'')) = Value a \<and>
     (if py_in ''NOTCFP'' cfptype then py_int a = Some cnt
      else split_ws a \<noteq> [] \<and> py_int (hd (split_ws a)) = Some cnt) \<and>
     m' = set_objects (set_info m m_info)
            (objects m @ new_ports m (next_id e) (map (port_index m) [0..<nat cnt]))"
  using assms by (rule module_inventory_Return)

lemma new_module_set_objects [simp]: "new_module (set_objects c cs) n i = new_module c n i"
  by (simp add: new_module_def)

lemma new_module_set_info [simp]: "new_module (set_info c nf) n i = new_module c n i"
  by (simp add: new_module_def)

lemma inventory_module_Return:
  assumes "inventory_module hw (i, tok) (e, c) = (Return (), (e', c'))"
  shows "\<exists>cnt. py_int tok = Some cnt \<and>
     (if cnt = 0 then e' = e \<and> c' = c
      else (\<exists>m. module_inventory hw (e\<lparr>next_id := Suc (next_id e)\<rparr>, new_module c (next_id e) i)
                  = (Return (), (e', m)) \<and>
                c' = set_objects c (objects c @ [m])))"
proof -
  from assms obtain cnt where cnt: "py_int tok = Some cnt" and
    rest: "(if cnt \<noteq> 0
            then bind (XenaModule i) (\<lambda>_. in_last_object (module_inventory hw))
            else return ()) (e, c) = (Return (), (e', c'))"
    unfolding inventory_module_def by (auto simp: bind_eq_Return int_of_Return)
  show ?thesis
  proof (cases "cnt = 0")
    case True
    with rest cnt show ?thesis by (simp add: return_def)
  next
    case False
    let ?m0 = "new_module c (next_id e) i"
    let ?e1 = "e\<lparr>next_id := Suc (next_id e)\<rparr>"
    obtain r2 e2 m2 where run: "module_inventory hw (?e1, ?m0) = (r2, (e2, m2))"
      by (metis prod_cases3)
    have "bind (XenaModule i) (\<lambda>_. in_last_object (module_inventory hw)) (e, c)
        = (r2, (e2, set_objects c (objects c @ [m2])))"
      using run
      by (simp add: bind_def XenaModule_def new_object_eq in_last_object_def new_module_def)
    with rest False have "r2 = Return ()" "e2 = e'" "c' = set_objects c (objects c @ [m2])"
      by simp_all
    with run cnt False show ?thesis by auto
  qed
qed

lemma inventory_modules_Return:
  assumes "for_each (enumerate k toks) (inventory_module hw) (e, c) = (Return (), (e', c'))"
  shows "(\<forall>tok\<in>set toks. py_int tok \<noteq> None) \<and>
     (\<exists>ms. c' = set_objects c (objects c @ ms) \<and>
        list_all2 (\<lambda>(i, tok) m. \<exists>e1 e2 n. module_inventory hw (e1, new_module c n i) = (Return (), (e2, m)))
          (filter (\<lambda>(i, tok). py_int tok \<noteq> Some 0) (enumerate k toks)) ms)"
  using assms
proof (induction toks arbitrary: k e c)
  case Nil
  then show ?case by (simp add: return_def)
next
  case (Cons tok toks)
  from Cons.prems obtain e1 c1 where
    first: "inventory_module hw (k, tok) (e, c) = (Return (), (e1, c1))" and
    rest: "for_each (enumerate (Suc k) toks) (inventory_module hw) (e1, c1) = (Return (), (e', c'))"
    by (auto simp: bind_eq_Return)
  from Cons.IH [OF rest] obtain ms where
    all: "\<forall>tok\<in>set toks. py_int tok \<noteq> None" and
    c': "c' = set_objects c1 (objects c1 @ ms)" and
    rel: "list_all2 (\<lambda>(i, tok) m. \<exists>e1 e2 n. module_inventory hw (e1, new_module c1 n i) = (Return (), (e2, m)))
          (filter (\<lambda>(i, tok). py_int tok \<noteq> Some 0) (enumerate (Suc k) toks)) ms"
    by blast
  from inventory_module_Return [OF first] obtain cnt where
    cnt: "py_int tok = Some cnt" and
    step: "if cnt = 0 then e1 = e \<and> c1 = c
      else (\<exists>m. module_inventory hw (e\<lparr>next_id := Suc (next_id e)\<rparr>, new_module c (next_id e) k)
                  = (Return (), (e1, m)) \<and>
                c1 = set_objects c (objects c @ [m]))"
    by blast
  show ?case
  proof (cases "cnt = 0")
    case True
    with step have "c1 = c" by simp
    with c' rel all cnt True show ?thesis by auto
  next
    case False
    with step obtain m where
      m: "module_inventory hw (e\<lparr>next_id := Suc (next_id e)\<rparr>, new_module c (next_id e) k)
           = (Return (), (e1, m))" and
      c1: "c1 = set_objects c (objects c @ [m])"
      by auto
    have "c' = set_objects c (objects c @ (m # ms))"
      using c' c1 by simp
    moreover have "list_all2 (\<lambda>(i, tok) m. \<exists>e1 e2 n. module_inventory hw (e1, new_module c n i) = (Return (), (e2, m)))
          (filter (\<lambda>(i, tok). py_int tok \<noteq> Some 0) (enumerate k (tok # toks))) (m # ms)"
      using rel m cnt False unfolding c1 by auto
    ultimately show ?thesis using all cnt by auto
  qed
qed

lemma chassis_inventory_loop:
  "chassis_inventory hw =
     bind (\<lambda>(e, self). lift_env (get_attributes hw self ''c_info'') (e, self))
       (\<lambda>c_info.
          bind (\<lambda>(e, self). return () (e, set_info self c_info))
            (\<lambda>_. bind (dict_get c_info ''c_portcounts'')
               (\<lambda>portcounts. for_each (enumerate 0 (split_ws portcounts)) (inventory_module hw))))"
  by (simp add: chassis_inventory_def inventory_module_def)

lemma module_inventory_header:
  assumes "module_inventory hw (e, new_module c n i) = (Return (), (e', m))"
  shows "index m = str_nat i \<and> obj_type m = ''module'' \<and> name m = default_name c (index m) \<and> info m \<noteq> None"
proof -
  from module_inventory_Return [OF assms] obtain m_info ps where
    "m = set_objects (set_info (new_module c n i) m_info) ps"
    by blast
  then show ?thesis by (simp add: set_objects_def set_info_def new_module_def)
qed

lemma modules_of_relation:
  assumes "list_all2 (\<lambda>(i, tok) m. \<exists>e1 e2 n. module_inventory hw (e1, new_module c n i) = (Return (), (e2, m))) xs ms"
  shows "map index ms = map (\<lambda>(i, tok). str_nat i) xs \<and>
     (\<forall>m\<in>set ms. obj_type m = ''module'' \<and> name m = default_name c (index m) \<and> info m \<noteq> None)"
  using assms
proof (induction rule: list_all2_induct)
  case Nil
  then show ?case by simp
next
  case (Cons x xs m ms)
  obtain i tok where x: "x = (i, tok)" by (cases x)
  with Cons.hyps obtain e1 e2 n where
    "module_inventory hw (e1, new_module c n i) = (Return (), (e2, m))"
    by auto
  from module_inventory_header [OF this] Cons.IH x show ?case by simp
qed

text \<open>
  C7: when \<^verbatim>\<open>XenaChassis.inventory\<close> returns, the hardware answered the query
  \<^verbatim>\<open>c_info\<close> with a mapping, stored in the chassis, whose value at \<^verbatim>\<open>c_portcounts\<close>
  splits at whitespace into fields that are all integers; the chassis has got new children
  that are, in order, one module for each position whose field is not zero, with the
  position as its index, and each of them is the outcome of a returning
  \<^verbatim>\<open>XenaModule.inventory\<close> on the newly constructed module. A position whose field is
  zero gets no module.
\<close>

theorem chassis_inventory_modules:
  assumes "chassis_inventory hw (e, c) = (Return (), (e', c'))"
  shows "\<exists>c_info portcounts ms.
     hw (trace e) (GetAttributes (target_of c) ''c_info'') = Values c_info \<and>
     map_of c_info ''c_portcounts'' = Some portcounts \<and>
     (\<forall>tok\<in>set (split_ws portcounts). py_int tok \<noteq> None) \<and>
     c' = set_objects (set_info c c_info) (objects c @ ms) \<and>
     map index ms = map (\<lambda>(i, tok). str_nat i)
       (filter (\<lambda>(i, tok). py_int tok \<noteq> Some 0) (enumerate 0 (split_ws portcounts))) \<and>
     (\<forall>m\<in>set ms. obj_type m = ''module'' \<and> name m = default_name c (index m) \<and> info m \<noteq> None) \<and>
     list_all2 (\<lambda>(i, tok) m. \<exists>e1 e2 n. module_inventory hw (e1, new_module c n i) = (Return (), (e2, m)))
       (filter (\<lambda>(i, tok). py_int tok \<noteq> Some 0) (enumerate 0 (split_ws portcounts))) ms"
proof -
  from assms obtain c_info e1 where
    q: "get_attributes hw c ''c_info'' e = (Return c_info, e1)" and
    r1: "bind (dict_get c_info ''c_portcounts'')
           (\<lambda>portcounts. for_each (enumerate 0 (split_ws portcounts)) (inventory_module hw))
           (e1, set_info c c_info) = (Return (), (e', c'))"
    unfolding chassis_inventory_loop bind_eq_Return
    by (auto simp: lift_env_Return return_def)
  from q have v: "hw (trace e) (GetAttributes (target_of c) ''c_info'') = Values c_info"
    by (simp add: get_attributes_Return)
  from r1 obtain portcounts where
    pc: "map_of c_info ''c_portcounts'' = Some portcounts" and
    loop: "for_each (enumerate 0 (split_ws portcounts)) (inventory_module hw) (e1, set_info c c_info)
        = (Return (), (e', c'))"
    unfolding bind_eq_Return dict_get_Return by blast
  from inventory_modules_Return [OF loop] obtain ms where
    all: "\<forall>tok\<in>set (split_ws portcounts). py_int tok \<noteq> None" and
    c': "c' = set_objects (set_info c c_info) (objects c @ ms)" and
    rel: "list_all2 (\<lambda>(i, tok) m. \<exists>e1 e2 n. module_inventory hw (e1, new_module c n i) = (Return (), (e2, m)))
       (filter (\<lambda>(i, tok). py_int tok \<noteq> Some 0) (enumerate 0 (split_ws portcounts))) ms"
    by auto
  from modules_of_relation [OF rel] v pc all c' rel show ?thesis by blast
qed

lemma demo_module_inventory_run:
  "module_inventory hw_demo (demo_env, demo_module) = demo_module_inventory"
  by code_simp

lemma demo_chassis_inventory_run:
  "chassis_inventory hw_demo (demo_env, demo_chassis) = demo_chassis_inventory"
  by code_simp

theorem module_inventory_ports_witness:
  "module_inventory hw_demo (demo_env, demo_module) = demo_module_inventory \<and>
   (\<exists>m_info cfptype a cnt.
     hw_demo (trace demo_env) (GetAttributes (target_of demo_module) ''m_info'') = Values m_info \<and>
     map_of m_info ''m_cfptype'' = Some cfptype \<and>
     hw_demo (trace demo_env @ [(GetAttributes (target_of demo_module) ''m_info'', Values m_info)])
        (GetAttribute (target_of demo_module)
           (if py_in ''NOTCFP'' cfptype then ''m_portcount'' else ''m_cfpconfig'')) = Value a \<and>
     (if py_in ''NOTCFP'' cfptype then py_int a = Some cnt
      else split_ws a \<noteq> [] \<and> py_int (hd (split_ws a)) = Some cnt) \<and>
     snd (snd demo_module_inventory) = set_objects (set_info demo_module m_info)
            (objects demo_module @ new_ports demo_module (next_id demo_env) (map (port_index demo_module) [0..<nat cnt])))"
proof -
  have run: "module_inventory hw_demo (demo_env, demo_module) =
      (Return (), (fst (snd demo_module_inventory), snd (snd demo_module_inventory)))"
    using demo_module_inventory_run by (simp add: demo_module_inventory_def)
  note module_inventory_ports [OF run]
  with demo_module_inventory_run show ?thesis by (intro conjI)
qed

theorem chassis_inventory_modules_witness:
  "chassis_inventory hw_demo (demo_env, demo_chassis) = demo_chassis_inventory \<and>
   (\<exists>c_info portcounts ms.
     hw_demo (trace demo_env) (GetAttributes (target_of demo_chassis) ''c_info'') = Values c_info \<and>
     map_of c_info ''c_portcounts'' = Some portcounts \<and>
     (\<forall>tok\<in>set (split_ws portcounts). py_int tok \<noteq> None) \<and>
     snd (snd demo_chassis_inventory) = set_objects (set_info demo_chassis c_info) (objects demo_chassis @ ms) \<and>
     map index ms = map (\<lambda>(i, tok). str_nat i)
       (filter (\<lambda>(i, tok). py_int tok \<noteq> Some 0) (enumerate 0 (split_ws portcounts))) \<and>
     (\<forall>m\<in>set ms. obj_type m = ''module'' \<and> name m = default_name demo_chassis (index m) \<and> info m \<noteq> None) \<and>
     list_all2 (\<lambda>(i, tok) m. \<exists>e1 e2 n. module_inventory hw_demo (e1, new_module demo_chassis n i) = (Return (), (e2, m)))
       (filter (\<lambda>(i, tok). py_int tok \<noteq> Some 0) (enumerate 0 (split_ws portcounts))) ms)"
proof -
  have run: "chassis_inventory hw_demo (demo_env, demo_chassis) =
      (Return (), (fst (snd demo_chassis_inventory), snd (snd demo_chassis_inventory)))"
    using demo_chassis_inventory_run by (simp add: demo_chassis_inventory_def)
  note chassis_inventory_modules [OF run]
  with demo_chassis_inventory_run show ?thesis by (intro conjI)
qed

section \<open>Traffic on a chassis\<close>

lemma get_attribute_eq:
  "get_attribute hw self attr e =
     ((case hw (trace e) (GetAttribute (target_of self) attr) of
         Value v \<Rightarrow> Return v | Failure err \<Rightarrow> Raise err | _ \<Rightarrow> Raise ProtocolError),
      logged hw (GetAttribute (target_of self) attr) e)"
  by (simp add: get_attribute_def exchange_def logged_def Let_def split: reply.splits)

lemma polled_Cons_waiting:
  assumes "polled p attr n states r b" and "v \<notin> set states"
  shows "polled p attr (Suc n) states r ((GetAttribute (target_of p) attr, Value v) # b)"
proof (cases "b = []")
  case True
  with assms show ?thesis by (auto simp: polled_def split: outcome.splits)
next
  case False
  with assms show ?thesis by (auto simp: polled_def split: outcome.splits)
qed

lemma wait_for_states_polled:
  assumes "wait_for_states hw p attr n states e = (r, e')"
  shows "\<exists>b. trace e' = trace e @ b \<and> next_id e' = next_id e \<and> polled p attr n states r b"
  using assms
proof (induction n arbitrary: e)
  case 0
  then have "r = Raise Timeout" "e' = e" by (simp_all add: raise_def)
  then show ?case by (simp add: polled_def)
next
  case (Suc n)
  let ?rq = "GetAttribute (target_of p) attr"
  let ?rp = "hw (trace e) ?rq"
  let ?e1 = "logged hw ?rq e"
  show ?case
  proof (cases ?rp)
    case (Value v)
    show ?thesis
    proof (cases "v \<in> set states")
      case True
      with Value Suc.prems have "r = Return ()" "e' = ?e1"
        by (simp_all add: bind_def get_attribute_eq return_def)
      with Value True show ?thesis by (simp add: polled_def)
    next
      case False
      with Value Suc.prems have "wait_for_states hw p attr n states ?e1 = (r, e')"
        by (simp add: bind_def get_attribute_eq)
      from Suc.IH [OF this] obtain b where
        b: "trace e' = trace ?e1 @ b" "next_id e' = next_id ?e1" "polled p attr n states r b"
        by blast
      from polled_Cons_waiting [OF b(3) False] b(1,2) Value show ?thesis by simp
    qed
  next
    case Ack
    with Suc.prems have "r = Raise ProtocolError" "e' = ?e1"
      by (simp_all add: bind_def get_attribute_eq)
    with Ack show ?thesis by (simp add: polled_def)
  next
    case (Values vs)
    with Suc.prems have "r = Raise ProtocolError" "e' = ?e1"
      by (simp_all add: bind_def get_attribute_eq)
    with Values show ?thesis by (simp add: polled_def)
  next
    case (Failure err)
    with Suc.prems have "r = Raise err" "e' = ?e1"
      by (simp_all add: bind_def get_attribute_eq)
    with Failure show ?thesis by (simp add: polled_def)
  qed
qed

text \<open>The blocks of a loop.\<close>

lemma for_each_blocks:
  assumes body: "\<And>x e r e'. x \<in> set xs \<Longrightarrow> body x e = (r, e') \<Longrightarrow>
       \<exists>b. trace e' = trace e @ b \<and> next_id e' = next_id e \<and> Q x r b"
    and run: "for_each xs body e = (r, e')"
  shows "next_id e' = next_id e \<and>
    (case r of
       Return u \<Rightarrow> (\<exists>bs. trace e' = trace e @ concat bs \<and> list_all2 (\<lambda>x b. Q x (Return ()) b) xs bs)
     | Raise err \<Rightarrow>
         (\<exists>bs b k. k < length xs \<and> trace e' = trace e @ concat bs @ b \<and>
            list_all2 (\<lambda>x b. Q x (Return ()) b) (take k xs) bs \<and> Q (xs ! k) (Raise err) b))"
  using assms
proof (induction xs arbitrary: e)
  case Nil
  then have "r = Return ()" "e' = e" by (simp_all add: return_def)
  then show ?case by simp
next
  case (Cons x xs)
  obtain r1 e1 where first: "body x e = (r1, e1)" by (metis surj_pair)
  from Cons.prems(1) [OF _ first] obtain b1 where
    b1: "trace e1 = trace e @ b1" "next_id e1 = next_id e" "Q x r1 b1"
    by auto
  show ?case
  proof (cases r1)
    case (Raise err)
    with first Cons.prems(2) have "r = Raise err" "e' = e1" by (simp_all add: bind_def)
    moreover have "list_all2 (\<lambda>x b. Q x (Return ()) b) (take 0 (x # xs)) []" by simp
    ultimately show ?thesis using b1 Raise
      by (auto intro!: exI [of _ "[]"] exI [of _ b1] exI [of _ "0::nat"])
  next
    case (Return u)
    with first Cons.prems(2) have rest: "for_each xs body e1 = (r, e')" by (simp add: bind_def)
    have body': "\<And>x e r e'. x \<in> set xs \<Longrightarrow> body x e = (r, e') \<Longrightarrow>
       \<exists>b. trace e' = trace e @ b \<and> next_id e' = next_id e \<and> Q x r b"
      using Cons.prems(1) by simp
    note ih = Cons.IH [OF body' rest]
    from ih b1 have nid: "next_id e' = next_id e" by simp
    show ?thesis
    proof (cases r)
      case (Return u')
      with ih obtain bs where "trace e' = trace e1 @ concat bs"
        "list_all2 (\<lambda>x b. Q x (Return ()) b) xs bs"
        by auto
      with b1 \<open>r1 = Return u\<close> have "trace e' = trace e @ concat (b1 # bs) \<and>
        list_all2 (\<lambda>x b. Q x (Return ()) b) (x # xs) (b1 # bs)"
        by simp
      then have "\<exists>bs. trace e' = trace e @ concat bs \<and>
        list_all2 (\<lambda>x b. Q x (Return ()) b) (x # xs) bs" ..
      with nid Return show ?thesis by simp
    next
      case (Raise err)
      with ih obtain bs b k where k: "k < length xs" and t: "trace e' = trace e1 @ concat bs @ b"
        and l: "list_all2 (\<lambda>x b. Q x (Return ()) b) (take k xs) bs" and q: "Q (xs ! k) (Raise err) b"
        by auto
      have "Suc k < length (x # xs) \<and> trace e' = trace e @ concat (b1 # bs) @ b \<and>
          list_all2 (\<lambda>x b. Q x (Return ()) b) (take (Suc k) (x # xs)) (b1 # bs) \<and>
          Q ((x # xs) ! Suc k) (Raise err) b"
        using k t l q b1 \<open>r1 = Return u\<close> by simp
      then have "\<exists>bs b k. k < length (x # xs) \<and> trace e' = trace e @ concat bs @ b \<and>
          list_all2 (\<lambda>x b. Q x (Return ()) b) (take k (x # xs)) bs \<and>
          Q ((x # xs) ! k) (Raise err) b"
        by blast
      with nid Raise show ?thesis by simp
    qed
  qed
qed

lemma wait_loop_polled_each:
  assumes "for_each ports (\<lambda>port. wait_for_states hw port attr n states) e = (r, e')"
  shows "\<exists>b. trace e' = trace e @ b \<and> next_id e' = next_id e \<and> polled_each attr n states ports r b"
proof -
  have body: "\<And>x e r e'. x \<in> set ports \<Longrightarrow> wait_for_states hw x attr n states e = (r, e') \<Longrightarrow>
       \<exists>b. trace e' = trace e @ b \<and> next_id e' = next_id e \<and> polled x attr n states r b"
    by (rule wait_for_states_polled)
  from for_each_blocks [of ports "\<lambda>port. wait_for_states hw port attr n states"
      "\<lambda>p r b. polled p attr n states r b", OF body assms]
  show ?thesis
    by (cases r) (auto simp: polled_each_def)
qed

lemma polled_requests:
  "polled p attr n states r b \<Longrightarrow> ev \<in> set b \<Longrightarrow> fst ev = GetAttribute (target_of p) attr"
proof -
  assume "polled p attr n states r b" and ev: "ev \<in> set b"
  then have "map fst b = replicate (length b) (GetAttribute (target_of p) attr)"
    by (simp add: polled_def)
  then have "set (map fst b) \<subseteq> {GetAttribute (target_of p) attr}"
    by (metis set_replicate_conv_if empty_subsetI subset_refl)
  with ev show ?thesis by auto
qed

lemma polled_all_requests:
  assumes "list_all2 (\<lambda>p b'. polled p attr n states r b') ps bs" and "ev \<in> set (concat bs)"
  shows "\<exists>p\<in>set ps. fst ev = GetAttribute (target_of p) attr"
  using assms
proof (induction rule: list_all2_induct)
  case Nil
  then show ?case by simp
next
  case (Cons p ps b bs)
  from Cons.prems have "ev \<in> set b \<or> ev \<in> set (concat bs)" by simp
  then show ?case
  proof
    assume "ev \<in> set b"
    from polled_requests [OF Cons.hyps(1) this] show ?thesis by simp
  next
    assume "ev \<in> set (concat bs)"
    from Cons.IH [OF this] show ?thesis by auto
  qed
qed

lemma polled_each_requests:
  assumes "polled_each attr n states ports r b" and "ev \<in> set b"
  shows "\<exists>p\<in>set ports. fst ev = GetAttribute (target_of p) attr"
proof (cases r)
  case (Return u)
  with assms obtain bs where "b = concat bs"
    "list_all2 (\<lambda>p b'. polled p attr n states (Return ()) b') ports bs"
    by (auto simp: polled_each_def)
  with assms(2) polled_all_requests show ?thesis by blast
next
  case (Raise err)
  with assms obtain bs b' k where k: "k < length ports" and b: "b = concat bs @ b'" and
    l: "list_all2 (\<lambda>p b'. polled p attr n states (Return ()) b') (take k ports) bs" and
    q: "polled (ports ! k) attr n states (Raise err) b'"
    by (auto simp: polled_each_def)
  from assms(2) b have "ev \<in> set (concat bs) \<or> ev \<in> set b'" by auto
  then show ?thesis
  proof
    assume "ev \<in> set (concat bs)"
    from polled_all_requests [OF l this] show ?thesis by (auto dest: in_set_takeD)
  next
    assume "ev \<in> set b'"
    from polled_requests [OF q this] k show ?thesis by auto
  qed
qed

lemma traffic_command_effect:
  assumes "traffic_command hw c cmd ports e = (r, e')"
  shows "\<exists>rp b. trace e' = trace e @ (traffic_request c cmd (chassis_get_operation_ports c ports), rp) # b \<and>
     next_id e' = next_id e \<and>
     ((\<exists>err. rp = Failure err \<and> r = Raise err \<and> b = []) \<or>
      (\<not> is_failure rp \<and> polled_each ''p_traffic'' 40 [cmd] (chassis_get_operation_ports c ports) r b))"
proof -
  let ?P = "chassis_get_operation_ports c ports"
  let ?rq = "traffic_request c cmd ?P"
  let ?rp = "hw (trace e) ?rq"
  have unfold: "traffic_command hw c cmd ports =
      bind (command hw ?rq) (\<lambda>_. for_each ?P (\<lambda>port. wait_for_states hw port ''p_traffic'' 40 [cmd]))"
    by (simp add: traffic_command_def Let_def send_command_def traffic_request_def)
  show ?thesis
  proof (cases "is_failure ?rp")
    case True
    then obtain err where err: "?rp = Failure err"
      by (auto simp: is_failure_def split: reply.splits)
    then have "command hw ?rq e = (Raise err, logged hw ?rq e)" by (simp add: command_Raise)
    with assms have "r = Raise err" "e' = logged hw ?rq e" by (simp_all add: unfold bind_def)
    with err show ?thesis by simp
  next
    case False
    then have "command hw ?rq e = (Return (), logged hw ?rq e)" by (simp add: command_Return)
    with assms have "for_each ?P (\<lambda>port. wait_for_states hw port ''p_traffic'' 40 [cmd]) (logged hw ?rq e) = (r, e')"
      by (simp add: unfold bind_def)
    from wait_loop_polled_each [OF this] False show ?thesis by auto
  qed
qed

lemma bind_return_right [simp]: "bind m return = m"
  by (rule ext) (simp add: bind_def return_def split: prod.splits outcome.splits)

text \<open>
  C4: a chassis-level start without blocking and a stop are \<^verbatim>\<open>_traffic_command\<close> with
  \<^verbatim>\<open>on\<close> and \<^verbatim>\<open>off\<close>. Every \<^verbatim>\<open>_traffic_command\<close> over the ports P (the arguments,
  or all ports of the chassis when there are none) sends first one \<^verbatim>\<open>c_traffic\<close> command
  whose argument is the indices of P with the slashes replaced by blanks, joined by blanks;
  everything after it is a query of \<^verbatim>\<open>p_traffic\<close> on a port of P; when the command is
  accepted, the ports of P are polled one after the other for the commanded value, each
  with timeout 40. \<^verbatim>\<open>wait_traffic\<close> polls its ports one after the other for \<^verbatim>\<open>off\<close>,
  each with timeout 2628000.
\<close>

theorem chassis_traffic_commands:
  "chassis_start_traffic hw c False ports = traffic_command hw c ''on'' ports \<and>
   chassis_stop_traffic hw c ports = traffic_command hw c ''off'' ports \<and>
   (traffic_command hw c cmd ports e = (r, e') \<longrightarrow>
      (\<exists>rp b. trace e' = trace e @ (traffic_request c cmd (chassis_get_operation_ports c ports), rp) # b \<and>
         (\<forall>ev\<in>set b. \<exists>p\<in>set (chassis_get_operation_ports c ports).
            fst ev = GetAttribute (target_of p) ''p_traffic'') \<and>
         ((\<exists>err. rp = Failure err \<and> r = Raise err \<and> b = []) \<or>
          (\<not> is_failure rp \<and>
           polled_each ''p_traffic'' 40 [cmd] (chassis_get_operation_ports c ports) r b)))) \<and>
   (chassis_wait_traffic hw c ports2 e2 = (r2, e2') \<longrightarrow>
      (\<exists>b. trace e2' = trace e2 @ b \<and> polled_each ''p_traffic'' 2628000 [''off''] ports2 r2 b))"
proof (intro conjI impI)
  show "chassis_start_traffic hw c False ports = traffic_command hw c ''on'' ports"
    by (simp add: chassis_start_traffic_def)
  show "chassis_stop_traffic hw c ports = traffic_command hw c ''off'' ports"
    by (simp add: chassis_stop_traffic_def)
next
  assume "traffic_command hw c cmd ports e = (r, e')"
  from traffic_command_effect [OF this] obtain rp b where
    t: "trace e' = trace e @ (traffic_request c cmd (chassis_get_operation_ports c ports), rp) # b" and
    o: "(\<exists>err. rp = Failure err \<and> r = Raise err \<and> b = []) \<or>
      (\<not> is_failure rp \<and> polled_each ''p_traffic'' 40 [cmd] (chassis_get_operation_ports c ports) r b)"
    by blast
  have "\<forall>ev\<in>set b. \<exists>p\<in>set (chassis_get_operation_ports c ports).
            fst ev = GetAttribute (target_of p) ''p_traffic''"
  proof
    fix ev assume ev: "ev \<in> set b"
    with o have "polled_each ''p_traffic'' 40 [cmd] (chassis_get_operation_ports c ports) r b"
      by auto
    from polled_each_requests [OF this ev]
    show "\<exists>p\<in>set (chassis_get_operation_ports c ports).
            fst ev = GetAttribute (target_of p) ''p_traffic''" .
  qed
  with t o show "\<exists>rp b. trace e' = trace e @ (traffic_request c cmd (chassis_get_operation_ports c ports), rp) # b \<and>
         (\<forall>ev\<in>set b. \<exists>p\<in>set (chassis_get_operation_ports c ports).
            fst ev = GetAttribute (target_of p) ''p_traffic'') \<and>
         ((\<exists>err. rp = Failure err \<and> r = Raise err \<and> b = []) \<or>
          (\<not> is_failure rp \<and>
           polled_each ''p_traffic'' 40 [cmd] (chassis_get_operation_ports c ports) r b))"
    by blast
next
  assume "chassis_wait_traffic hw c ports2 e2 = (r2, e2')"
  then have "for_each ports2 (\<lambda>port. wait_for_states hw port ''p_traffic'' 2628000 [''off'']) e2 = (r2, e2')"
    by (simp add: chassis_wait_traffic_def)
  from wait_loop_polled_each [OF this]
  show "\<exists>b. trace e2' = trace e2 @ b \<and> polled_each ''p_traffic'' 2628000 [''off''] ports2 r2 b"
    by blast
qed

lemma wait_for_states_numeral:
  "wait_for_states hw self attr (numeral k) states =
     bind (get_attribute hw self attr)
       (\<lambda>v. if v \<in> set states then return () else wait_for_states hw self attr (pred_numeral k) states)"
  by (simp add: numeral_eq_Suc)

lemma demo_on_run:
  "traffic_command hw_demo (snd (snd demo_reserved)) ''on'' [] \<lparr>trace = [], next_id = 4\<rparr> = demo_on"
  by code_simp

lemma demo_off_run:
  "chassis_wait_traffic hw_demo (snd (snd demo_reserved)) [demo_port 2 ''0/1'', demo_port 3 ''0/2'']
     (snd demo_on) = demo_off"
  by (simp add: chassis_wait_traffic_def wait_for_states_numeral bind_def get_attribute_eq
      hw_demo_def logged_def target_of_def demo_port_def demo_on_def demo_off_def return_def)

theorem chassis_traffic_commands_witness:
  "traffic_command hw_demo (snd (snd demo_reserved)) ''on'' [] \<lparr>trace = [], next_id = 4\<rparr> = demo_on \<and>
   chassis_wait_traffic hw_demo (snd (snd demo_reserved)) [demo_port 2 ''0/1'', demo_port 3 ''0/2'']
     (snd demo_on) = demo_off \<and>
   (\<exists>rp b. trace (snd demo_on) = trace \<lparr>trace = [], next_id = 4\<rparr> @
        (traffic_request (snd (snd demo_reserved)) ''on''
           (chassis_get_operation_ports (snd (snd demo_reserved)) []), rp) # b \<and>
      (\<forall>ev\<in>set b. \<exists>p\<in>set (chassis_get_operation_ports (snd (snd demo_reserved)) []).
          fst ev = GetAttribute (target_of p) ''p_traffic'') \<and>
      ((\<exists>err. rp = Failure err \<and> Return () = Raise err \<and> b = []) \<or>
       (\<not> is_failure rp \<and>
        polled_each ''p_traffic'' 40 [''on'']
          (chassis_get_operation_ports (snd (snd demo_reserved)) []) (Return ()) b))) \<and>
   (\<exists>b. trace (snd demo_off) = trace (snd demo_on) @ b \<and>
      polled_each ''p_traffic'' 2628000 [''off''] [demo_port 2 ''0/1'', demo_port 3 ''0/2''] (Return ()) b)"
proof -
  have run1: "traffic_command hw_demo (snd (snd demo_reserved)) ''on'' [] \<lparr>trace = [], next_id = 4\<rparr>
      = (Return (), snd demo_on)"
    using demo_on_run by (simp add: demo_on_def)
  have run2: "chassis_wait_traffic hw_demo (snd (snd demo_reserved)) [demo_port 2 ''0/1'', demo_port 3 ''0/2'']
     (snd demo_on) = (Return (), snd demo_off)"
    using demo_off_run by (simp add: demo_off_def)
  note a = chassis_traffic_commands [THEN conjunct2, THEN conjunct2, THEN conjunct1, THEN mp, OF run1]
  note b = chassis_traffic_commands [THEN conjunct2, THEN conjunct2, THEN conjunct2, THEN mp, OF run2]
  from demo_on_run demo_off_run a b show ?thesis by (intro conjI)
qed

section \<open>Traffic in a session\<close>

lemma update_absent: "k \<notin> fst ` set d \<Longrightarrow> AList.update k v d = d @ [(k, v)]"
  by (induction d) auto

lemma mset_concat_update:
  "map_of d c = Some ps \<Longrightarrow>
     mset (concat (map snd (AList.update c (ps @ [p]) d))) = add_mset p (mset (concat (map snd d)))"
  by (induction d) (auto split: if_splits)

lemma mset_add_port:
  "mset (concat (map snd (add_port c p d))) = add_mset p (mset (concat (map snd d)))"
proof (cases "map_of d c")
  case None
  then have "c \<notin> fst ` set d" by (simp add: map_of_eq_None_iff)
  with None show ?thesis by (simp add: add_port_def update_absent)
next
  case (Some ps)
  then show ?thesis by (simp add: add_port_def mset_concat_update)
qed

lemma grouped_add_port:
  assumes "grouped s d" and "get_object_by_name (root s) (owner_address p) = Inr c"
  shows "grouped s (add_port c p d)"
proof -
  have dist: "distinct (map fst (add_port c p d))"
    using assms(1) by (simp add: add_port_def grouped_def distinct_update split: option.splits)
  have "snd g \<noteq> [] \<and> (\<forall>q\<in>set (snd g). get_object_by_name (root s) (owner_address q) = Inr (fst g))"
    if g: "g \<in> set (add_port c p d)" for g
  proof (cases "map_of d c")
    case None
    with g have "(fst g, snd g) \<in> set (AList.update c [p] d)" by (simp add: add_port_def)
    from in_set_updateD [OF this] have "g = (c, [p]) \<or> g \<in> set d"
      by (metis prod.collapse)
    with assms show ?thesis by (auto simp: grouped_def)
  next
    case (Some ps)
    with g have "(fst g, snd g) \<in> set (AList.update c (ps @ [p]) d)" by (simp add: add_port_def)
    from in_set_updateD [OF this] have "g = (c, ps @ [p]) \<or> g \<in> set d"
      by (metis prod.collapse)
    moreover from Some have "(c, ps) \<in> set d" by (rule map_of_SomeD)
    ultimately show ?thesis using assms by (fastforce simp: grouped_def)
  qed
  with dist show ?thesis by (simp add: grouped_def)
qed

lemma per_chassis_from_step:
  "per_chassis_from s (port # ports) d =
     (case get_object_by_name (root s) (owner_address port) of
        Inl err \<Rightarrow> Inl err
      | Inr chassis \<Rightarrow> per_chassis_from s ports (add_port chassis port d))"
  by (simp add: add_port_def owner_address_def split: sum.splits)

lemma per_chassis_from_Inr:
  assumes "per_chassis_from s ports d = Inr d'"
  shows "mset (concat (map snd d')) = mset (concat (map snd d)) + mset ports \<and>
     (grouped s d \<longrightarrow> grouped s d')"
  using assms
proof (induction ports arbitrary: d)
  case Nil
  then show ?case by simp
next
  case (Cons port ports)
  from Cons.prems obtain c where
    c: "get_object_by_name (root s) (owner_address port) = Inr c" and
    rest: "per_chassis_from s ports (add_port c port d) = Inr d'"
    by (auto simp: per_chassis_from_step simp del: per_chassis_from.simps split: sum.splits)
  from Cons.IH [OF rest] c show ?case
    by (auto simp: mset_add_port grouped_add_port)
qed

lemma per_chassis_ports_Inr:
  assumes "per_chassis_ports s ports = Inr groups"
  shows "mset (concat (map snd groups)) = mset ports \<and> grouped s groups"
  using per_chassis_from_Inr [of s ports "[]" groups] assms
  by (simp add: per_chassis_ports_def grouped_def)

lemma polled_Return_observed:
  assumes "polled p attr n states (Return ()) b"
  shows "\<exists>v\<in>set states. (GetAttribute (target_of p) attr, Value v) \<in> set b"
proof -
  from assms have ne: "b \<noteq> []" and
    l: "case snd (last b) of Value v \<Rightarrow> v \<in> set states | _ \<Rightarrow> False" and
    m: "map fst b = replicate (length b) (GetAttribute (target_of p) attr)"
    by (simp_all add: polled_def)
  from l obtain v where v: "snd (last b) = Value v" "v \<in> set states"
    by (auto split: reply.splits)
  from ne have "last b \<in> set b" by simp
  moreover from polled_requests [OF assms this] have "fst (last b) = GetAttribute (target_of p) attr" .
  ultimately have "(GetAttribute (target_of p) attr, Value v) \<in> set b"
    using v(1) by (metis prod.collapse)
  with v(2) show ?thesis ..
qed

lemma list_all2_pick:
  assumes "list_all2 P xs ys" and "x \<in> set xs"
  shows "\<exists>y\<in>set ys. P x y"
  using assms by (induction rule: list_all2_induct) auto

lemma polled_each_Return_observed:
  assumes "polled_each attr n states ports (Return ()) b" and "p \<in> set ports"
  shows "\<exists>v\<in>set states. (GetAttribute (target_of p) attr, Value v) \<in> set b"
proof -
  from assms(1) obtain bs where b: "b = concat bs" and
    l: "list_all2 (\<lambda>p b'. polled p attr n states (Return ()) b') ports bs"
    by (auto simp: polled_each_def)
  from list_all2_pick [OF l assms(2)] obtain b' where
    "b' \<in> set bs" "polled p attr n states (Return ()) b'"
    by blast
  with polled_Return_observed [of p attr n states b'] b show ?thesis by auto
qed

lemma start_group_effect:
  assumes "snd g \<noteq> []" and "chassis_start_traffic hw (fst g) False (snd g) e = (r, e')"
  shows "\<exists>b. trace e' = trace e @ b \<and> next_id e' = next_id e \<and> started g r b"
proof -
  from assms(2) have "traffic_command hw (fst g) ''on'' (snd g) e = (r, e')"
    by (simp add: chassis_start_traffic_def)
  from traffic_command_effect [OF this] assms(1) show ?thesis
    by (auto simp: started_def chassis_get_operation_ports_def)
qed

lemma wait_group_effect:
  assumes "chassis_wait_traffic hw (fst g) (snd g) e = (r, e')"
  shows "\<exists>b. trace e' = trace e @ b \<and> next_id e' = next_id e \<and> awaited g r b"
proof -
  from assms have "for_each (snd g) (\<lambda>port. wait_for_states hw port ''p_traffic'' 2628000 [''off'']) e = (r, e')"
    by (simp add: chassis_wait_traffic_def)
  from wait_loop_polled_each [OF this] show ?thesis by (simp add: awaited_def)
qed

lemma start_groups_Return:
  assumes g: "grouped s groups"
    and run: "for_each groups (\<lambda>(chassis, chassis_ports). chassis_start_traffic hw chassis False chassis_ports) e
       = (Return (), e')"
  shows "\<exists>bs. trace e' = trace e @ concat bs \<and> list_all2 (\<lambda>g b. started g (Return ()) b) groups bs"
proof -
  have body: "\<And>x e r e'. x \<in> set groups \<Longrightarrow>
      (\<lambda>(chassis, chassis_ports). chassis_start_traffic hw chassis False chassis_ports) x e = (r, e') \<Longrightarrow>
       \<exists>b. trace e' = trace e @ b \<and> next_id e' = next_id e \<and> started x r b"
  proof -
    fix x e r e'
    assume x: "x \<in> set groups" and
      "(\<lambda>(chassis, chassis_ports). chassis_start_traffic hw chassis False chassis_ports) x e = (r, e')"
    then have r: "chassis_start_traffic hw (fst x) False (snd x) e = (r, e')"
      by (simp add: case_prod_beta)
    from g x have "snd x \<noteq> []" by (simp add: grouped_def)
    from start_group_effect [OF this r]
    show "\<exists>b. trace e' = trace e @ b \<and> next_id e' = next_id e \<and> started x r b" .
  qed
  from for_each_blocks [of groups _ started, OF body run] show ?thesis by simp
qed

lemma wait_groups_Return:
  assumes run: "for_each groups (\<lambda>(chassis, chassis_ports). chassis_wait_traffic hw chassis chassis_ports) e
       = (Return (), e')"
  shows "\<exists>bs. trace e' = trace e @ concat bs \<and> list_all2 (\<lambda>g b. awaited g (Return ()) b) groups bs"
proof -
  have body: "\<And>x e r e'. x \<in> set groups \<Longrightarrow>
      (\<lambda>(chassis, chassis_ports). chassis_wait_traffic hw chassis chassis_ports) x e = (r, e') \<Longrightarrow>
       \<exists>b. trace e' = trace e @ b \<and> next_id e' = next_id e \<and> awaited x r b"
  proof -
    fix x e r e'
    assume "(\<lambda>(chassis, chassis_ports). chassis_wait_traffic hw chassis chassis_ports) x e = (r, e')"
    then have r: "chassis_wait_traffic hw (fst x) (snd x) e = (r, e')"
      by (simp add: case_prod_beta)
    from wait_group_effect [OF r]
    show "\<exists>b. trace e' = trace e @ b \<and> next_id e' = next_id e \<and> awaited x r b" .
  qed
  from for_each_blocks [of groups _ awaited, OF body run] show ?thesis by simp
qed

lemma started_observed:
  assumes l: "list_all2 (\<lambda>g b. started g (Return ()) b) groups bs"
    and p: "p \<in> set (concat (map snd groups))"
  shows "observed p ''on'' \<in> set (concat bs)"
proof -
  from p obtain g where g: "g \<in> set groups" and pg: "p \<in> set (snd g)" by auto
  from list_all2_pick [OF l g] obtain b where b: "b \<in> set bs" and s: "started g (Return ()) b"
    by blast
  from s obtain rp b' where b': "b = (traffic_request (fst g) ''on'' (snd g), rp) # b'" and
    pe: "polled_each ''p_traffic'' 40 [''on''] (snd g) (Return ()) b'"
    by (auto simp: started_def)
  from polled_each_Return_observed [OF pe pg] have "observed p ''on'' \<in> set b'"
    by (simp add: observed_def)
  with b' have "observed p ''on'' \<in> set b" by simp
  with b show ?thesis by auto
qed

lemma awaited_observed:
  assumes l: "list_all2 (\<lambda>g b. awaited g (Return ()) b) groups bs"
    and p: "p \<in> set (concat (map snd groups))"
  shows "observed p ''off'' \<in> set (concat bs)"
proof -
  from p obtain g where g: "g \<in> set groups" and pg: "p \<in> set (snd g)" by auto
  from list_all2_pick [OF l g] obtain b where b: "b \<in> set bs" and s: "awaited g (Return ()) b"
    by blast
  from s have pe: "polled_each ''p_traffic'' 2628000 [''off''] (snd g) (Return ()) b"
    by (simp add: awaited_def)
  from polled_each_Return_observed [OF pe pg] have "observed p ''off'' \<in> set b"
    by (simp add: observed_def)
  with b show ?thesis by auto
qed

lemma awaited_requests:
  assumes l: "list_all2 (\<lambda>g b. awaited g r b) groups bs" and ev: "ev \<in> set (concat bs)"
  shows "\<exists>p\<in>set (concat (map snd groups)). fst ev = GetAttribute (target_of p) ''p_traffic''"
  using assms
proof (induction rule: list_all2_induct)
  case Nil
  then show ?case by simp
next
  case (Cons g groups b bs)
  from Cons.prems have "ev \<in> set b \<or> ev \<in> set (concat bs)" by simp
  then show ?case
  proof
    assume "ev \<in> set b"
    with Cons.hyps(1) polled_each_requests [of "''p_traffic''" 2628000 "[''off'']" "snd g" r b ev]
    show ?thesis by (auto simp: awaited_def)
  next
    assume "ev \<in> set (concat bs)"
    from Cons.IH [OF this] show ?thesis by auto
  qed
qed

lemma session_start_traffic_Return:
  assumes "session_start_traffic hw s blocking ports e = (Return (), e')"
  shows "\<exists>groups on_blocks off_blocks.
     per_chassis_ports s (session_get_operation_ports s ports) = Inr groups \<and>
     mset (concat (map snd groups)) = mset (session_get_operation_ports s ports) \<and>
     trace e' = trace e @ concat on_blocks @ concat off_blocks \<and>
     list_all2 (\<lambda>g b. started g (Return ()) b) groups on_blocks \<and>
     (\<forall>p\<in>set (session_get_operation_ports s ports). observed p ''on'' \<in> set (concat on_blocks)) \<and>
     (if blocking
      then list_all2 (\<lambda>g b. awaited g (Return ()) b) groups off_blocks \<and>
           (\<forall>p\<in>set (session_get_operation_ports s ports). observed p ''off'' \<in> set (concat off_blocks)) \<and>
           (\<forall>ev\<in>set (concat off_blocks). \<exists>p\<in>set (session_get_operation_ports s ports).
               fst ev = GetAttribute (target_of p) ''p_traffic'')
      else off_blocks = [])"
proof (cases "per_chassis_ports s (session_get_operation_ports s ports)")
  case (Inl err)
  with assms show ?thesis by (simp add: session_start_traffic_def raise_def)
next
  case (Inr groups)
  let ?P = "session_get_operation_ports s ports"
  from per_chassis_ports_Inr [OF Inr] have
    ms: "mset (concat (map snd groups)) = mset ?P" and gr: "grouped s groups"
    by simp_all
  from ms have sets: "set (concat (map snd groups)) = set ?P" by (rule mset_eq_setD)
  have prog: "session_start_traffic hw s blocking ports =
      bind (for_each groups (\<lambda>(chassis, chassis_ports). chassis_start_traffic hw chassis False chassis_ports))
        (\<lambda>_. if blocking
             then for_each groups (\<lambda>(chassis, chassis_ports). chassis_wait_traffic hw chassis chassis_ports)
             else return ())"
    using Inr by (cases blocking) (simp_all add: session_start_traffic_def)
  from assms obtain e1 where
    on: "for_each groups (\<lambda>(chassis, chassis_ports). chassis_start_traffic hw chassis False chassis_ports) e
       = (Return (), e1)" and
    off: "(if blocking
           then for_each groups (\<lambda>(chassis, chassis_ports). chassis_wait_traffic hw chassis chassis_ports)
           else return ()) e1 = (Return (), e')"
    unfolding prog bind_eq_Return by auto
  from start_groups_Return [OF gr on] obtain on_blocks where
    t1: "trace e1 = trace e @ concat on_blocks" and
    l1: "list_all2 (\<lambda>g b. started g (Return ()) b) groups on_blocks"
    by blast
  have o1: "\<forall>p\<in>set ?P. observed p ''on'' \<in> set (concat on_blocks)"
    using started_observed [OF l1] sets by blast
  show ?thesis
  proof (cases blocking)
    case False
    with off have "e' = e1" by (simp add: return_def)
    with t1 have "trace e' = trace e @ concat on_blocks @ concat []" by simp
    with Inr ms l1 o1 False show ?thesis by (intro exI [of _ groups] exI [of _ on_blocks] exI [of _ "[]"]) simp
  next
    case True
    with off have "for_each groups (\<lambda>(chassis, chassis_ports). chassis_wait_traffic hw chassis chassis_ports) e1
       = (Return (), e')"
      by simp
    from wait_groups_Return [OF this] obtain off_blocks where
      t2: "trace e' = trace e1 @ concat off_blocks" and
      l2: "list_all2 (\<lambda>g b. awaited g (Return ()) b) groups off_blocks"
      by blast
    have o2: "\<forall>p\<in>set ?P. observed p ''off'' \<in> set (concat off_blocks)"
      using awaited_observed [OF l2] sets by blast
    have q2: "\<forall>ev\<in>set (concat off_blocks). \<exists>p\<in>set ?P. fst ev = GetAttribute (target_of p) ''p_traffic''"
      using awaited_requests [OF l2] sets by blast
    from t1 t2 have "trace e' = trace e @ concat on_blocks @ concat off_blocks" by simp
    with Inr ms l1 o1 True l2 o2 q2 show ?thesis
      by (intro exI [of _ groups] exI [of _ on_blocks] exI [of _ off_blocks]) simp
  qed
qed

lemma demo_groups_run:
  "per_chassis_ports (snd (snd demo_three)) (session_get_operation_ports (snd (snd demo_three)) [])
     = Inr demo_groups"
  by code_simp

lemma demo_started_run:
  "session_start_traffic hw_demo (snd (snd demo_three)) False [] \<lparr>trace = [], next_id = 6\<rparr>
     = (Return (), demo_started)"
  by code_simp

lemma demo_wait_run:
  "for_each demo_groups (\<lambda>(chassis, chassis_ports). chassis_wait_traffic hw_demo chassis chassis_ports)
     demo_started = (Return (), demo_finished)"
  by (simp add: demo_groups_def chassis_wait_traffic_def wait_for_states_numeral bind_def
      get_attribute_eq hw_demo_def logged_def target_of_def demo_started_def demo_finished_def
      return_def)

lemma demo_finished_run:
  "session_start_traffic hw_demo (snd (snd demo_three)) True [] \<lparr>trace = [], next_id = 6\<rparr>
     = (Return (), demo_finished)"
proof -
  have "session_start_traffic hw_demo (snd (snd demo_three)) True [] =
      bind (session_start_traffic hw_demo (snd (snd demo_three)) False [])
        (\<lambda>_. for_each demo_groups (\<lambda>(chassis, chassis_ports). chassis_wait_traffic hw_demo chassis chassis_ports))"
    by (simp add: session_start_traffic_def demo_groups_run)
  then show ?thesis by (simp add: bind_def demo_started_run demo_wait_run)
qed

text \<open>
  C1, as the code has it: when \<^verbatim>\<open>XenaSession.start_traffic\<close> returns, the affected
  ports were grouped by chassis; chassis by chassis, the combined \<^verbatim>\<open>on\<close> command was
  sent and accepted and every port of the group was then polled until it reported
  \<^verbatim>\<open>on\<close> (timeout 40), so every affected port was observed \<^verbatim>\<open>on\<close>, also without
  blocking. Without blocking nothing follows. With blocking, after the exchanges of all
  chassis for the start, every affected port was polled until it reported \<^verbatim>\<open>off\<close>, and
  these last exchanges are queries of \<^verbatim>\<open>p_traffic\<close> only.
\<close>

theorem session_start_traffic_trace:
  assumes "session_start_traffic hw s blocking ports e = (Return (), e')"
  shows "\<exists>groups on_blocks off_blocks.
     per_chassis_ports s (session_get_operation_ports s ports) = Inr groups \<and>
     mset (concat (map snd groups)) = mset (session_get_operation_ports s ports) \<and>
     trace e' = trace e @ concat on_blocks @ concat off_blocks \<and>
     list_all2 (\<lambda>g b. started g (Return ()) b) groups on_blocks \<and>
     (\<forall>p\<in>set (session_get_operation_ports s ports). observed p ''on'' \<in> set (concat on_blocks)) \<and>
     (if blocking
      then list_all2 (\<lambda>g b. awaited g (Return ()) b) groups off_blocks \<and>
           (\<forall>p\<in>set (session_get_operation_ports s ports). observed p ''off'' \<in> set (concat off_blocks)) \<and>
           (\<forall>ev\<in>set (concat off_blocks). \<exists>p\<in>set (session_get_operation_ports s ports).
               fst ev = GetAttribute (target_of p) ''p_traffic'')
      else off_blocks = [])"
  using assms by (rule session_start_traffic_Return)

text \<open>
  C1 as stated fails: in the session with three reserved ports on two chassis,
  \<^verbatim>\<open>start_traffic\<close> without blocking polls \<^verbatim>\<open>p_traffic\<close> of every port, and the
  ports of the first chassis are polled before the command is sent to the second.
\<close>

theorem start_traffic_nonblocking_polls:
  "session_start_traffic hw_demo (snd (snd demo_three)) False [] \<lparr>trace = [], next_id = 6\<rparr>
     = (Return (), demo_started) \<and>
   trace demo_started =
     [(SendCommand (1, ''10.0.0.1'') ''c_traffic'' [''on'', ''0 1 0 2''], Ack),
      (GetAttribute (3, ''10.0.0.1/0/1'') ''p_traffic'', Value ''on''),
      (GetAttribute (5, ''10.0.0.1/0/2'') ''p_traffic'', Value ''on''),
      (SendCommand (2, ''10.0.0.2'') ''c_traffic'' [''on'', ''0 0''], Ack),
      (GetAttribute (4, ''10.0.0.2/0/0'') ''p_traffic'', Value ''on'')] \<and>
   (GetAttribute (3, ''10.0.0.1/0/1'') ''p_traffic'', Value ''on'') \<in> set (trace demo_started)"
  using demo_started_run by (simp add: demo_started_def)

theorem session_start_traffic_trace_witness:
  "session_start_traffic hw_demo (snd (snd demo_three)) True [] \<lparr>trace = [], next_id = 6\<rparr>
     = (Return (), demo_finished) \<and>
   (\<exists>groups on_blocks off_blocks.
     per_chassis_ports (snd (snd demo_three)) (session_get_operation_ports (snd (snd demo_three)) []) = Inr groups \<and>
     mset (concat (map snd groups)) = mset (session_get_operation_ports (snd (snd demo_three)) []) \<and>
     trace demo_finished = trace \<lparr>trace = [], next_id = 6\<rparr> @ concat on_blocks @ concat off_blocks \<and>
     list_all2 (\<lambda>g b. started g (Return ()) b) groups on_blocks \<and>
     (\<forall>p\<in>set (session_get_operation_ports (snd (snd demo_three)) []). observed p ''on'' \<in> set (concat on_blocks)) \<and>
     (if True
      then list_all2 (\<lambda>g b. awaited g (Return ()) b) groups off_blocks \<and>
           (\<forall>p\<in>set (session_get_operation_ports (snd (snd demo_three)) []). observed p ''off'' \<in> set (concat off_blocks)) \<and>
           (\<forall>ev\<in>set (concat off_blocks). \<exists>p\<in>set (session_get_operation_ports (snd (snd demo_three)) []).
               fst ev = GetAttribute (target_of p) ''p_traffic'')
      else off_blocks = []))"
proof -
  note session_start_traffic_trace [OF demo_finished_run]
  with demo_finished_run show ?thesis by (intro conjI)
qed

section \<open>Clearing statistics and releasing ports in a session\<close>

lemma fold_update_distinct:
  assumes "distinct (map key xs)" and "key ` set xs \<inter> fst ` set d0 = {}"
  shows "fold (\<lambda>x d. AList.update (key x) x d) xs d0 = d0 @ map (\<lambda>x. (key x, x)) xs"
  using assms
proof (induction xs arbitrary: d0)
  case Nil
  then show ?case by simp
next
  case (Cons x xs)
  from Cons.prems have a: "key x \<notin> fst ` set d0" by auto
  then have u: "AList.update (key x) x d0 = d0 @ [(key x, x)]" by (rule update_absent)
  from Cons.prems have "distinct (map key xs)" "key ` set xs \<inter> fst ` set (d0 @ [(key x, x)]) = {}"
    by auto
  from Cons.IH [OF this] u show ?case by simp
qed

lemma dict_comp_distinct: "distinct (map key xs) \<Longrightarrow> dict_values (dict_comp key xs) = xs"
  using fold_update_distinct [of key xs "[]"]
  by (simp add: dict_comp_def dict_values_def comp_def)

lemma dict_comp_items: "dict_comp key xs = map (\<lambda>v. (key v, v)) (dict_values (dict_comp key xs))"
proof -
  have "\<forall>kv\<in>set (dict_comp key xs). kv = (key (snd kv), snd kv)"
    using in_dict_compD [of _ _ key xs] by (metis prod.collapse)
  then show ?thesis
    unfolding dict_values_def map_map comp_def by (simp add: map_idI)
qed

lemma dict_update_comp:
  "dict_update d (dict_comp key xs) =
     fold (\<lambda>x d. AList.update (key x) x d) (dict_values (dict_comp key xs)) d"
proof -
  have "dict_update d (map (\<lambda>v. (key v, v)) vs) = fold (\<lambda>x d. AList.update (key x) x d) vs d" for vs
    by (induction vs arbitrary: d) (simp_all add: dict_update_def)
  from this [of "dict_values (dict_comp key xs)"] show ?thesis
    using dict_comp_items [of key xs] by simp
qed

lemma fold_dict_update:
  "fold (\<lambda>c ports. dict_update ports (dict_comp key (f c))) cs d =
     fold (\<lambda>x d. AList.update (key x) x d) (concat (map (\<lambda>c. dict_values (dict_comp key (f c))) cs)) d"
  by (induction cs arbitrary: d) (simp_all add: dict_update_comp)

lemma session_ports_comp:
  "session_ports s =
     dict_comp str (concat (map (\<lambda>c. dict_values (dict_comp str (get_objects_by_type c ''port'')))
       (dict_values (chassis_list s))))"
  unfolding session_ports_def fold_dict_update
  by (simp add: dict_comp_def [of str "concat _"])

lemma keys_of_values: "map key (dict_values (dict_comp key xs)) = dict_keys (dict_comp key xs)"
proof -
  have "map fst (map (\<lambda>v. (key v, v)) (dict_values (dict_comp key xs))) = map key (dict_values (dict_comp key xs))"
    by (simp add: comp_def)
  then show ?thesis using dict_comp_items [of key xs] by (simp add: dict_keys_def)
qed

lemma values_distinct_keys: "distinct (map key (dict_values (dict_comp key xs)))"
  by (simp add: keys_of_values dict_keys_def distinct_dict_comp)

lemma values_key_set: "key ` set (dict_values (dict_comp key xs)) = key ` set xs"
  using set_dict_keys_comp [of key xs] keys_of_values [of key xs]
  by (metis set_map)

lemma values_subset: "set (dict_values (dict_comp key xs)) \<subseteq> set xs"
  using in_dict_compD [of _ _ key xs] by (auto simp: dict_values_def)

lemma session_ports_values:
  assumes "distinct (map name (session_chassis s))"
  shows "distinct (map name (dict_values (session_ports s)))"
    and "name ` set (dict_values (session_ports s)) = name ` set (all_ports s)"
    and "set (dict_values (session_ports s)) \<subseteq> set (all_ports s)"
    and "distinct (map name (all_ports s)) \<Longrightarrow> dict_values (session_ports s) = all_ports s"
proof -
  have cl: "dict_values (chassis_list s) = session_chassis s"
    using assms by (simp add: chassis_list_def session_chassis_def dict_comp_distinct str_def [abs_def])
  let ?inner = "concat (map (\<lambda>c. dict_values (dict_comp name (get_objects_by_type c ''port''))) (session_chassis s))"
  have sp: "session_ports s = dict_comp name ?inner"
    by (simp add: session_ports_comp cl str_def [abs_def])
  show "distinct (map name (dict_values (session_ports s)))"
    unfolding sp by (rule values_distinct_keys)
  have sub: "set ?inner \<subseteq> set (all_ports s)"
    using values_subset [of name] by (fastforce simp: all_ports_def)
  have names: "name ` set ?inner = name ` set (all_ports s)"
  proof -
    have "name ` set ?inner = (\<Union>c\<in>set (session_chassis s). name ` set (dict_values (dict_comp name (get_objects_by_type c ''port''))))"
      by auto
    also have "\<dots> = (\<Union>c\<in>set (session_chassis s). name ` set (get_objects_by_type c ''port''))"
      by (simp add: values_key_set)
    also have "\<dots> = name ` set (all_ports s)"
      by (auto simp: all_ports_def)
    finally show ?thesis .
  qed
  show "name ` set (dict_values (session_ports s)) = name ` set (all_ports s)"
    unfolding sp values_key_set names ..
  show "set (dict_values (session_ports s)) \<subseteq> set (all_ports s)"
    unfolding sp using values_subset [of name ?inner] sub by blast
  show "dict_values (session_ports s) = all_ports s" if d: "distinct (map name (all_ports s))"
  proof -
    have "distinct (map name (get_objects_by_type c ''port''))" if "c \<in> set (session_chassis s)" for c
    proof -
      from that obtain xs ys where "session_chassis s = xs @ c # ys" by (auto simp: in_set_conv_decomp)
      with d show ?thesis by (simp add: all_ports_def)
    qed
    then have "?inner = all_ports s"
      by (simp add: all_ports_def dict_comp_distinct cong: map_cong)
    with d show ?thesis unfolding sp by (simp add: dict_comp_distinct)
  qed
qed

lemma for_each_concat: "for_each xss (\<lambda>xs. for_each xs body) = for_each (concat xss) body"
  by (induction xss) (simp_all add: for_each_append)

lemma commands_Return:
  assumes "for_each xs (\<lambda>x. command hw (rq x)) e = (Return (), e')"
  shows "\<exists>evs. trace e' = trace e @ evs \<and> map fst evs = map rq xs \<and>
     (\<forall>ev\<in>set evs. \<not> is_failure (snd ev)) \<and> next_id e' = next_id e"
  using assms
proof (induction xs arbitrary: e)
  case Nil
  then show ?case by (simp add: return_def)
next
  case (Cons x xs)
  from Cons.prems obtain e1 where
    first: "command hw (rq x) e = (Return (), e1)" and
    rest: "for_each xs (\<lambda>x. command hw (rq x)) e1 = (Return (), e')"
    by (auto simp: bind_eq_Return)
  from first have ok: "\<not> is_failure (hw (trace e) (rq x))" and e1: "e1 = logged hw (rq x) e"
    by (simp_all add: command_Return)
  from Cons.IH [OF rest] obtain evs where
    evs: "trace e' = trace e1 @ evs" "map fst evs = map rq xs"
      "\<forall>ev\<in>set evs. \<not> is_failure (snd ev)" "next_id e' = next_id e1"
    by blast
  have "trace e' = trace e @ ((rq x, hw (trace e) (rq x)) # evs) \<and>
      map fst ((rq x, hw (trace e) (rq x)) # evs) = map rq (x # xs) \<and>
      (\<forall>ev\<in>set ((rq x, hw (trace e) (rq x)) # evs). \<not> is_failure (snd ev)) \<and>
      next_id e' = next_id e"
    using evs ok e1 by simp
  then show ?case by blast
qed

lemma clear_groups:
  "for_each groups (\<lambda>(chassis, chassis_ports). chassis_clear_stats hw chassis chassis_ports) =
     for_each (concat (map snd groups)) (\<lambda>p. command hw (PortClearStats (target_of p)))"
proof -
  have "(\<lambda>(chassis, chassis_ports). chassis_clear_stats hw chassis chassis_ports) =
      (\<lambda>g. for_each (snd g) (\<lambda>p. command hw (PortClearStats (target_of p))))"
    by (auto simp: chassis_clear_stats_def port_clear_stats_def [abs_def])
  moreover have "for_each groups (\<lambda>g. for_each (snd g) body) = for_each (map snd groups) (\<lambda>xs. for_each xs body)"
    for body :: "node \<Rightarrow> (env, unit) prog"
    by (induction groups) simp_all
  ultimately show ?thesis by (simp add: for_each_concat)
qed

lemma distinct_map_mset:
  assumes "mset xs = mset ys" and "distinct (map f ys)"
  shows "distinct (map f xs)"
proof -
  from assms(1) have "mset (map f xs) = mset (map f ys)" by simp
  with assms(2) show ?thesis by (metis mset_eq_imp_distinct_iff)
qed

lemma session_clear_stats_Return:
  assumes "session_clear_stats hw s ports e = (Return (), e')"
  shows "\<exists>groups evs.
     per_chassis_ports s (session_get_operation_ports s ports) = Inr groups \<and> grouped s groups \<and>
     trace e' = trace e @ evs \<and>
     map fst evs = map (\<lambda>p. PortClearStats (target_of p)) (concat (map snd groups)) \<and>
     mset (concat (map snd groups)) = mset (session_get_operation_ports s ports) \<and>
     (ports = [] \<and> distinct (map name (session_chassis s)) \<longrightarrow>
        distinct (map name (concat (map snd groups))) \<and>
        name ` set (concat (map snd groups)) = name ` set (all_ports s) \<and>
        set (concat (map snd groups)) \<subseteq> set (all_ports s) \<and>
        (distinct (map name (all_ports s)) \<longrightarrow> mset (concat (map snd groups)) = mset (all_ports s)))"
proof (cases "per_chassis_ports s (session_get_operation_ports s ports)")
  case (Inl err)
  with assms show ?thesis by (simp add: session_clear_stats_def raise_def)
next
  case (Inr groups)
  let ?T = "concat (map snd groups)"
  from per_chassis_ports_Inr [OF Inr] have
    ms: "mset ?T = mset (session_get_operation_ports s ports)" and gr: "grouped s groups"
    by simp_all
  from assms Inr have "for_each ?T (\<lambda>p. command hw (PortClearStats (target_of p))) e = (Return (), e')"
    by (simp add: session_clear_stats_def clear_groups)
  from commands_Return [OF this] obtain evs where
    evs: "trace e' = trace e @ evs" "map fst evs = map (\<lambda>p. PortClearStats (target_of p)) ?T"
    by blast
  have dflt: "distinct (map name ?T) \<and> name ` set ?T = name ` set (all_ports s) \<and>
        set ?T \<subseteq> set (all_ports s) \<and>
        (distinct (map name (all_ports s)) \<longrightarrow> mset ?T = mset (all_ports s))"
    if "ports = []" and dc: "distinct (map name (session_chassis s))"
  proof -
    from that ms have m: "mset ?T = mset (dict_values (session_ports s))"
      by (simp add: session_get_operation_ports_def)
    then have st: "set ?T = set (dict_values (session_ports s))" by (rule mset_eq_setD)
    from distinct_map_mset [OF m session_ports_values(1) [OF dc]]
    have "distinct (map name ?T)" .
    moreover have "name ` set ?T = name ` set (all_ports s)"
      unfolding st by (rule session_ports_values(2) [OF dc])
    moreover have "set ?T \<subseteq> set (all_ports s)"
      unfolding st by (rule session_ports_values(3) [OF dc])
    moreover have "distinct (map name (all_ports s)) \<longrightarrow> mset ?T = mset (all_ports s)"
      using session_ports_values(4) [OF dc] m by simp
    ultimately show ?thesis by blast
  qed
  from Inr gr evs ms dflt show ?thesis by blast
qed

lemma demo_cleared_run:
  "session_clear_stats hw_demo (snd (snd demo_three)) [] \<lparr>trace = [], next_id = 6\<rparr>
     = (Return (), demo_cleared)"
  by code_simp

lemma demo_cleared_one_run:
  "session_clear_stats hw_demo (snd (snd demo_three)) [Node 4 ''port'' ''0/0'' ''10.0.0.2/0/0'' None []]
     \<lparr>trace = [], next_id = 6\<rparr> = (Return (), demo_cleared_one)"
  by code_simp

text \<open>
  C6: when \<^verbatim>\<open>XenaSession.clear_stats\<close> returns, what it sent is one stat-clear command
  per port of a list that is the operation ports (the arguments, or without arguments the
  values of the session's port dictionary) rearranged, group by group of the per-chassis
  dictionary. Without arguments, in a session whose chassis have different names, the
  ports addressed have different names, their names are the names of all ports of all
  chassis, and they are ports of the session; when no two ports of the session share a
  name they are all the ports of the session, each once.
\<close>

theorem session_clear_stats_targets:
  assumes "session_clear_stats hw s ports e = (Return (), e')"
  shows "\<exists>groups evs.
     per_chassis_ports s (session_get_operation_ports s ports) = Inr groups \<and> grouped s groups \<and>
     trace e' = trace e @ evs \<and>
     map fst evs = map (\<lambda>p. PortClearStats (target_of p)) (concat (map snd groups)) \<and>
     mset (concat (map snd groups)) = mset (session_get_operation_ports s ports) \<and>
     (ports = [] \<and> distinct (map name (session_chassis s)) \<longrightarrow>
        distinct (map name (concat (map snd groups))) \<and>
        name ` set (concat (map snd groups)) = name ` set (all_ports s) \<and>
        set (concat (map snd groups)) \<subseteq> set (all_ports s) \<and>
        (distinct (map name (all_ports s)) \<longrightarrow> mset (concat (map snd groups)) = mset (all_ports s)))"
  using assms by (rule session_clear_stats_Return)

theorem session_clear_stats_targets_witness:
  "session_clear_stats hw_demo (snd (snd demo_three)) [] \<lparr>trace = [], next_id = 6\<rparr>
     = (Return (), demo_cleared) \<and>
   distinct (map name (session_chassis (snd (snd demo_three)))) \<and>
   distinct (map name (all_ports (snd (snd demo_three)))) \<and>
   (\<exists>groups evs.
     per_chassis_ports (snd (snd demo_three)) (session_get_operation_ports (snd (snd demo_three)) []) = Inr groups \<and>
     trace demo_cleared = trace \<lparr>trace = [], next_id = 6\<rparr> @ evs \<and>
     map fst evs = map (\<lambda>p. PortClearStats (target_of p)) (concat (map snd groups)) \<and>
     distinct (map name (concat (map snd groups))) \<and>
     name ` set (concat (map snd groups)) = name ` set (all_ports (snd (snd demo_three))) \<and>
     mset (concat (map snd groups)) = mset (all_ports (snd (snd demo_three)))) \<and>
   session_clear_stats hw_demo (snd (snd demo_three)) [Node 4 ''port'' ''0/0'' ''10.0.0.2/0/0'' None []]
     \<lparr>trace = [], next_id = 6\<rparr> = (Return (), demo_cleared_one) \<and>
   (\<exists>(groups :: (node \<times> node list) list) evs.
     trace demo_cleared_one = trace \<lparr>trace = [], next_id = 6\<rparr> @ evs \<and>
     map fst evs = map (\<lambda>p. PortClearStats (target_of p)) (concat (map snd groups)) \<and>
     mset (concat (map snd groups)) = mset [Node 4 ''port'' ''0/0'' ''10.0.0.2/0/0'' None []])"
proof -
  have dc: "distinct (map name (session_chassis (snd (snd demo_three))))"
    by (simp add: session_chassis_def demo_three_def get_objects_by_type_def)
  have dp: "distinct (map name (all_ports (snd (snd demo_three))))"
    by (simp add: all_ports_def session_chassis_def demo_three_def get_objects_by_type_def)
  from session_clear_stats_targets [OF demo_cleared_run] obtain groups evs where
    g: "per_chassis_ports (snd (snd demo_three)) (session_get_operation_ports (snd (snd demo_three)) []) = Inr groups" and
    t: "trace demo_cleared = trace \<lparr>trace = [], next_id = 6\<rparr> @ evs" and
    m: "map fst evs = map (\<lambda>p. PortClearStats (target_of p)) (concat (map snd groups))" and
    i: "[] = [] \<and> distinct (map name (session_chassis (snd (snd demo_three)))) \<longrightarrow>
        distinct (map name (concat (map snd groups))) \<and>
        name ` set (concat (map snd groups)) = name ` set (all_ports (snd (snd demo_three))) \<and>
        set (concat (map snd groups)) \<subseteq> set (all_ports (snd (snd demo_three))) \<and>
        (distinct (map name (all_ports (snd (snd demo_three)))) \<longrightarrow>
           mset (concat (map snd groups)) = mset (all_ports (snd (snd demo_three))))"
    by blast
  from i dc dp have "distinct (map name (concat (map snd groups))) \<and>
     name ` set (concat (map snd groups)) = name ` set (all_ports (snd (snd demo_three))) \<and>
     mset (concat (map snd groups)) = mset (all_ports (snd (snd demo_three)))"
    by blast
  with g t m have a: "\<exists>groups evs.
     per_chassis_ports (snd (snd demo_three)) (session_get_operation_ports (snd (snd demo_three)) []) = Inr groups \<and>
     trace demo_cleared = trace \<lparr>trace = [], next_id = 6\<rparr> @ evs \<and>
     map fst evs = map (\<lambda>p. PortClearStats (target_of p)) (concat (map snd groups)) \<and>
     distinct (map name (concat (map snd groups))) \<and>
     name ` set (concat (map snd groups)) = name ` set (all_ports (snd (snd demo_three))) \<and>
     mset (concat (map snd groups)) = mset (all_ports (snd (snd demo_three)))"
    by blast
  from session_clear_stats_targets [OF demo_cleared_one_run]
  obtain groups1 :: "(node \<times> node list) list" and evs1 where
    t1: "trace demo_cleared_one = trace \<lparr>trace = [], next_id = 6\<rparr> @ evs1" and
    m1: "map fst evs1 = map (\<lambda>p. PortClearStats (target_of p)) (concat (map snd groups1))" and
    s1: "mset (concat (map snd groups1)) =
       mset (session_get_operation_ports (snd (snd demo_three))
               [Node 4 ''port'' ''0/0'' ''10.0.0.2/0/0'' None []])"
    by blast
  from s1 have "mset (concat (map snd groups1)) = mset [Node 4 ''port'' ''0/0'' ''10.0.0.2/0/0'' None []]"
    by (simp add: session_get_operation_ports_def)
  with t1 m1 have b: "\<exists>(groups :: (node \<times> node list) list) evs.
     trace demo_cleared_one = trace \<lparr>trace = [], next_id = 6\<rparr> @ evs \<and>
     map fst evs = map (\<lambda>p. PortClearStats (target_of p)) (concat (map snd groups)) \<and>
     mset (concat (map snd groups)) = mset [Node 4 ''port'' ''0/0'' ''10.0.0.2/0/0'' None []]"
    by blast
  from demo_cleared_run dc dp a demo_cleared_one_run b show ?thesis by (intro conjI)
qed

lemma release_groups:
  "for_each chs (\<lambda>chassis. chassis_release_ports hw chassis) =
     for_each (released chs) (\<lambda>p. command hw (PortRelease (target_of p)))"
proof -
  have "for_each chs (\<lambda>c. for_each (f c) body) = for_each (map f chs) (\<lambda>xs. for_each xs body)"
    for body :: "node \<Rightarrow> (env, unit) prog" and f
    by (induction chs) simp_all
  then show ?thesis
    by (simp add: chassis_release_ports_def [abs_def] port_release_def [abs_def] for_each_concat released_def)
qed

lemma distinct_map_concat:
  assumes "distinct chs"
    and "\<forall>c\<in>set chs. distinct (map h (f c))"
    and "\<forall>c\<in>set chs. \<forall>c'\<in>set chs. c \<noteq> c' \<longrightarrow> h ` set (f c) \<inter> h ` set (f c') = {}"
  shows "distinct (map h (concat (map f chs)))"
  using assms
proof (induction chs)
  case Nil
  then show ?case by simp
next
  case (Cons c chs)
  from Cons.prems have ih: "distinct (map h (concat (map f chs)))"
    by (intro Cons.IH) auto
  have "h ` set (f c) \<inter> h ` set (f c') = {}" if "c' \<in> set chs" for c'
  proof -
    from Cons.prems(1) that have "c \<noteq> c'" by auto
    with Cons.prems(3) that show ?thesis by simp
  qed
  then have "h ` set (f c) \<inter> h ` set (concat (map f chs)) = {}" by auto
  then have "set (map h (f c)) \<inter> set (map h (concat (map f chs))) = {}" by simp
  moreover from Cons.prems(2) have "distinct (map h (f c))" by simp
  ultimately have "distinct (map h (f c) @ map h (concat (map f chs)))"
    using ih by (simp only: distinct_append)
  then show ?case by simp
qed

lemma owner_address_name: "name p = name q \<Longrightarrow> owner_address p = owner_address q"
  by (simp add: owner_address_def)

lemma in_all_ports:
  "p \<in> set (all_ports s) \<longleftrightarrow> (\<exists>c\<in>set (session_chassis s). p \<in> set (get_objects_by_type c ''port''))"
  by (auto simp: all_ports_def)

lemma chassis_ports_values:
  "set (dict_values (chassis_ports c)) \<subseteq> set (get_objects_by_type c ''port'')"
  "name ` set (dict_values (chassis_ports c)) = name ` set (get_objects_by_type c ''port'')"
  "distinct (map name (dict_values (chassis_ports c)))"
  unfolding chassis_ports_def str_def [abs_def]
  by (rule values_subset, rule values_key_set, rule values_distinct_keys)

lemma session_release_ports_Return:
  assumes wa: "well_addressed s"
    and run: "session_release_ports hw s e = (Return (), e')"
  shows "\<exists>chs evs.
     distinct chs \<and> set chs \<subseteq> set (session_chassis s) \<and>
     trace e' = trace e @ evs \<and>
     map fst evs = map (\<lambda>p. PortRelease (target_of p)) (released chs) \<and>
     distinct (map name (released chs)) \<and>
     name ` set (released chs) = name ` set (all_ports s) \<and>
     set (released chs) \<subseteq> set (all_ports s) \<and>
     (distinct (map name (all_ports s)) \<longrightarrow> mset (released chs) = mset (all_ports s))"
proof (cases "per_chassis_ports s (session_get_operation_ports s [])")
  case (Inl err)
  with run show ?thesis by (simp add: session_release_ports_def raise_def)
next
  case (Inr groups)
  let ?P = "dict_values (session_ports s)"
  let ?chs = "map fst groups"
  from wa have dc: "distinct (map name (session_chassis s))"
    and look: "\<And>c. c \<in> set (session_chassis s) \<Longrightarrow> get_object_by_name (root s) (name c) = Inr c"
    and own: "\<And>c p. c \<in> set (session_chassis s) \<Longrightarrow> p \<in> set (get_objects_by_type c ''port'') \<Longrightarrow>
       owner_address p = name c"
    by (simp_all add: well_addressed_def)
  from per_chassis_ports_Inr [OF Inr] have
    ms: "mset (concat (map snd groups)) = mset ?P" and gr: "grouped s groups"
    by (simp_all add: session_get_operation_ports_def)
  from ms have sets: "set (concat (map snd groups)) = set ?P" by (rule mset_eq_setD)
  have mem: "(\<exists>g\<in>set groups. p \<in> set (snd g)) \<longleftrightarrow> p \<in> set ?P" for p
    unfolding sets [symmetric] by auto
  note sp = session_ports_values [OF dc]
  from gr have dchs: "distinct ?chs" by (simp add: grouped_def)
  text \<open>the key of a group is the chassis of its ports\<close>
  have key: "fst g = c"
    if "g \<in> set groups" "p \<in> set (snd g)" "c \<in> set (session_chassis s)"
      "owner_address p = name c" for g p c
  proof -
    from gr that(1,2) have "get_object_by_name (root s) (owner_address p) = Inr (fst g)"
      by (simp add: grouped_def)
    with that(4) look [OF that(3)] show ?thesis by simp
  qed
  have sub: "set ?chs \<subseteq> set (session_chassis s)"
  proof
    fix c assume "c \<in> set ?chs"
    then obtain g where g: "g \<in> set groups" and c: "c = fst g" by auto
    from gr g have "snd g \<noteq> []" by (simp add: grouped_def)
    then obtain p where p: "p \<in> set (snd g)" by (cases "snd g") auto
    with g mem have "p \<in> set ?P" by blast
    with sp(3) have "p \<in> set (all_ports s)" by blast
    then obtain c' where c': "c' \<in> set (session_chassis s)" "p \<in> set (get_objects_by_type c' ''port'')"
      unfolding in_all_ports by blast
    from key [OF g p c'(1) own [OF c']] c c'(1) show "c \<in> set (session_chassis s)" by simp
  qed
  have rsub: "set (released ?chs) \<subseteq> set (all_ports s)"
    using sub chassis_ports_values(1) by (fastforce simp: released_def in_all_ports)
  have names: "name ` set (released ?chs) = name ` set (all_ports s)"
  proof
    show "name ` set (released ?chs) \<subseteq> name ` set (all_ports s)" using rsub by blast
    show "name ` set (all_ports s) \<subseteq> name ` set (released ?chs)"
    proof
      fix n assume "n \<in> name ` set (all_ports s)"
      then obtain p where "n = name p" "p \<in> set (all_ports s)" by blast
      then obtain c where p: "n = name p" "c \<in> set (session_chassis s)"
        "p \<in> set (get_objects_by_type c ''port'')"
        unfolding in_all_ports by blast
      from p(2,3) have "p \<in> set (all_ports s)" unfolding in_all_ports by blast
      then have "name p \<in> name ` set (all_ports s)" by (rule imageI)
      then have "name p \<in> name ` set ?P" by (simp only: sp(2))
      then obtain p' where p': "p' \<in> set ?P" "name p' = name p" by (metis imageE)
      from p'(1) sp(3) have "p' \<in> set (all_ports s)" by blast
      then obtain c' where c': "c' \<in> set (session_chassis s)"
        "p' \<in> set (get_objects_by_type c' ''port'')"
        unfolding in_all_ports by blast
      have "name c' = name c"
        using own [OF c'] own [OF p(2,3)] owner_address_name [OF p'(2)] by simp
      with dc c'(1) p(2) have cc: "c' = c" by (simp add: distinct_map inj_on_def)
      from p'(1) mem obtain g where g: "g \<in> set groups" "p' \<in> set (snd g)" by blast
      from key [OF g c'(1) own [OF c']] cc have "c \<in> set ?chs" using g(1) by auto
      moreover from p(3) chassis_ports_values(2) [of c]
      have "name p \<in> name ` set (dict_values (chassis_ports c))" by blast
      ultimately show "n \<in> name ` set (released ?chs)"
        using p(1) by (auto simp: released_def)
    qed
  qed
  have dnames: "distinct (map name (released ?chs))"
    unfolding released_def
  proof (rule distinct_map_concat [OF dchs])
    show "\<forall>c\<in>set ?chs. distinct (map name (dict_values (chassis_ports c)))"
      by (simp add: chassis_ports_values(3))
    show "\<forall>c\<in>set ?chs. \<forall>c'\<in>set ?chs. c \<noteq> c' \<longrightarrow>
        name ` set (dict_values (chassis_ports c)) \<inter> name ` set (dict_values (chassis_ports c')) = {}"
    proof (intro ballI impI)
      fix c c' assume c: "c \<in> set ?chs" and c': "c' \<in> set ?chs" and ne: "c \<noteq> c'"
      from c c' sub have in_s: "c \<in> set (session_chassis s)" "c' \<in> set (session_chassis s)"
        by auto
      have "name p \<noteq> name p'"
        if "p \<in> set (dict_values (chassis_ports c))" "p' \<in> set (dict_values (chassis_ports c'))" for p p'
      proof
        assume eq: "name p = name p'"
        from that chassis_ports_values(1) have "p \<in> set (get_objects_by_type c ''port'')"
          "p' \<in> set (get_objects_by_type c' ''port'')"
          by blast+
        with in_s own have "owner_address p = name c" "owner_address p' = name c'" by simp_all
        with owner_address_name [OF eq] have "name c = name c'" by simp
        with dc in_s have "c = c'" by (simp add: distinct_map inj_on_def)
        with ne show False ..
      qed
      then show "name ` set (dict_values (chassis_ports c)) \<inter> name ` set (dict_values (chassis_ports c')) = {}"
        by auto
    qed
  qed
  have full: "mset (released ?chs) = mset (all_ports s)" if d: "distinct (map name (all_ports s))"
  proof -
    from dnames have dr: "distinct (released ?chs)" by (simp add: distinct_map)
    from d have da: "distinct (all_ports s)" by (simp add: distinct_map)
    have "set (released ?chs) = set (all_ports s)"
    proof
      show "set (released ?chs) \<subseteq> set (all_ports s)" by (rule rsub)
      show "set (all_ports s) \<subseteq> set (released ?chs)"
      proof
        fix p assume p: "p \<in> set (all_ports s)"
        with names obtain q where q: "q \<in> set (released ?chs)" "name q = name p" by (metis imageE imageI)
        with rsub have "q \<in> set (all_ports s)" by blast
        with d p q(2) have "q = p" by (simp add: distinct_map inj_on_def)
        with q(1) show "p \<in> set (released ?chs)" by simp
      qed
    qed
    with dr da show ?thesis by (simp add: set_eq_iff_mset_eq_distinct)
  qed
  from run Inr have "for_each (released ?chs) (\<lambda>p. command hw (PortRelease (target_of p))) e = (Return (), e')"
    by (simp add: session_release_ports_def release_groups dict_keys_def)
  from commands_Return [OF this] obtain evs where
    evs: "trace e' = trace e @ evs" "map fst evs = map (\<lambda>p. PortRelease (target_of p)) (released ?chs)"
    by blast
  from dchs sub evs dnames names rsub full show ?thesis by blast
qed

lemma demo_released_run:
  "session_release_ports hw_demo (snd (snd demo_three)) \<lparr>trace = [], next_id = 6\<rparr>
     = (Return (), demo_released)"
  by code_simp

lemma demo_well_addressed: "well_addressed (snd (snd demo_three))"
  by code_simp


lemma in_root_in_object:
  "in_root (in_object c m) (e, s) =
     (case m (e, c) of (r, (e', c')) \<Rightarrow> (r, (e', s\<lparr>root := replace_node c' (root s)\<rparr>)))"
  by (simp add: in_root_def in_object_def split: prod.splits)

lemma demo_found_chassis_run:
  "chassis_inventory hw_demo (fst demo1, Node 1 ''chassis'' [] ''10.0.0.1'' None []) =
     (Return (), (fst demo_found, hd (objects (root (snd demo_found)))))"
  by code_simp

lemma demo_found_run: "session_inventory hw_demo demo1 = (Return (), demo_found)"
proof -
  let ?c = "Node 1 ''chassis'' [] ''10.0.0.1'' None []"
  have chs: "get_objects_by_type (root (snd demo1)) ''chassis'' = [?c]"
    by (simp add: demo1_def get_objects_by_type_def)
  have tree: "(snd demo1)\<lparr>root := replace_node (hd (objects (root (snd demo_found)))) (root (snd demo1))\<rparr>
      = snd demo_found"
    by (simp add: demo1_def demo_found_def)
  have "in_root (in_object ?c (chassis_inventory hw_demo)) (fst demo1, snd demo1) =
      (Return (), (fst demo_found, snd demo_found))"
    unfolding in_root_in_object demo_found_chassis_run prod.case tree ..
  then have one: "in_root (in_object ?c (chassis_inventory hw_demo)) demo1 = (Return (), demo_found)"
    by (simp only: prod.collapse)
  have "session_inventory hw_demo demo1 =
      for_each (get_objects_by_type (root (snd demo1)) ''chassis'')
        (\<lambda>chassis. in_root (in_object chassis (chassis_inventory hw_demo))) demo1"
    by (simp add: session_inventory_def split_beta)
  also have "\<dots> = (Return (), demo_found)"
    unfolding chs for_each.simps by (simp only: bind_def one prod.case outcome.case return_def)
  finally show ?thesis .
qed

lemma demo_found_two_run:
  "add_chassis hw_demo ''10.0.0.2'' 22611 ''xena'' demo_found = (Return (), demo_found_two)"
  by code_simp

lemma demo_found_reserved_run:
  "session_reserve_ports hw_demo [''10.0.0.1/0/1'', ''10.0.0.2/0/0''] False demo_found_two
     = demo_found_reserved"
  by code_simp

lemma demo_found_released_run:
  "session_release_ports hw_demo (snd (snd demo_found_reserved)) (fst (snd demo_found_reserved))
     = (Return (), demo_found_released)"
  by code_simp

text \<open>
  C2 as stated fails: in the session that added the chassis \<^verbatim>\<open>10.0.0.1\<close>, took its
  inventory, added the chassis \<^verbatim>\<open>10.0.0.2\<close> and reserved the two ports
  \<^verbatim>\<open>10.0.0.1/0/1\<close> and \<^verbatim>\<open>10.0.0.2/0/0\<close>, \<^verbatim>\<open>release_ports()\<close> sends four release
  commands: also to the ports \<^verbatim>\<open>10.0.0.1/0/0\<close> and \<^verbatim>\<open>10.0.0.1/2/0\<close>, which the inventory
  found and the session never reserved.
\<close>

theorem release_ports_after_inventory:
  "add_chassis hw_demo ''10.0.0.1'' 22611 ''xena'' (XenaSession ''me'') = (Return (), demo1) \<and>
   session_inventory hw_demo demo1 = (Return (), demo_found) \<and>
   add_chassis hw_demo ''10.0.0.2'' 22611 ''xena'' demo_found = (Return (), demo_found_two) \<and>
   session_reserve_ports hw_demo [''10.0.0.1/0/1'', ''10.0.0.2/0/0''] False demo_found_two
     = demo_found_reserved \<and>
   session_release_ports hw_demo (snd (snd demo_found_reserved)) (fst (snd demo_found_reserved))
     = (Return (), demo_found_released) \<and>
   trace demo_found_released = trace (fst (snd demo_found_reserved)) @
     [(PortRelease (3, ''10.0.0.1/0/0''), Ack), (PortRelease (8, ''10.0.0.1/0/1''), Ack),
      (PortRelease (6, ''10.0.0.1/2/0''), Ack), (PortRelease (9, ''10.0.0.2/0/0''), Ack)] \<and>
   ''10.0.0.1/0/0'' \<notin> set [''10.0.0.1/0/1'', ''10.0.0.2/0/0''] \<and>
   ''10.0.0.1/2/0'' \<notin> set [''10.0.0.1/0/1'', ''10.0.0.2/0/0'']"
  using demo1_run demo_found_run demo_found_two_run demo_found_reserved_run demo_found_released_run
  by (simp add: demo_found_released_def)

text \<open>
  C2: when \<^verbatim>\<open>XenaSession.release_ports\<close> returns in a well addressed session, what it
  sent is one release command per port of the port dictionaries of a list of different
  chassis of the session, chassis by chassis. The ports released have different names,
  their names are the names of all ports of the session, and they are ports of the
  session: no other port gets a command. When no two ports of the session share a name,
  they are all the ports of the session, each once.
\<close>

theorem session_release_ports_targets:
  assumes "well_addressed s"
    and "session_release_ports hw s e = (Return (), e')"
  shows "\<exists>chs evs.
     distinct chs \<and> set chs \<subseteq> set (session_chassis s) \<and>
     trace e' = trace e @ evs \<and>
     map fst evs = map (\<lambda>p. PortRelease (target_of p)) (released chs) \<and>
     distinct (map name (released chs)) \<and>
     name ` set (released chs) = name ` set (all_ports s) \<and>
     set (released chs) \<subseteq> set (all_ports s) \<and>
     (distinct (map name (all_ports s)) \<longrightarrow> mset (released chs) = mset (all_ports s))"
  using assms by (rule session_release_ports_Return)

theorem session_release_ports_targets_witness:
  "session_reserve_ports hw_demo [''10.0.0.1/0/1'', ''10.0.0.2/0/0'', ''10.0.0.1/0/2''] False demo_two = demo_three \<and>
   well_addressed (snd (snd demo_three)) \<and>
   distinct (map name (all_ports (snd (snd demo_three)))) \<and>
   session_release_ports hw_demo (snd (snd demo_three)) \<lparr>trace = [], next_id = 6\<rparr>
     = (Return (), demo_released) \<and>
   (\<exists>chs evs.
     distinct chs \<and> set chs \<subseteq> set (session_chassis (snd (snd demo_three))) \<and>
     trace demo_released = trace \<lparr>trace = [], next_id = 6\<rparr> @ evs \<and>
     map fst evs = map (\<lambda>p. PortRelease (target_of p)) (released chs) \<and>
     distinct (map name (released chs)) \<and>
     name ` set (released chs) = name ` set (all_ports (snd (snd demo_three))) \<and>
     mset (released chs) = mset (all_ports (snd (snd demo_three))))"
proof -
  have dp: "distinct (map name (all_ports (snd (snd demo_three))))"
    by (simp add: all_ports_def session_chassis_def demo_three_def get_objects_by_type_def)
  from session_release_ports_targets [OF demo_well_addressed demo_released_run]
  obtain chs evs where
    a: "distinct chs" "set chs \<subseteq> set (session_chassis (snd (snd demo_three)))"
      "trace demo_released = trace \<lparr>trace = [], next_id = 6\<rparr> @ evs"
      "map fst evs = map (\<lambda>p. PortRelease (target_of p)) (released chs)"
      "distinct (map name (released chs))"
      "name ` set (released chs) = name ` set (all_ports (snd (snd demo_three)))" and
    i: "distinct (map name (all_ports (snd (snd demo_three)))) \<longrightarrow>
        mset (released chs) = mset (all_ports (snd (snd demo_three)))"
    by blast
  from i dp have "mset (released chs) = mset (all_ports (snd (snd demo_three)))" by blast
  with a have "\<exists>chs evs.
     distinct chs \<and> set chs \<subseteq> set (session_chassis (snd (snd demo_three))) \<and>
     trace demo_released = trace \<lparr>trace = [], next_id = 6\<rparr> @ evs \<and>
     map fst evs = map (\<lambda>p. PortRelease (target_of p)) (released chs) \<and>
     distinct (map name (released chs)) \<and>
     name ` set (released chs) = name ` set (all_ports (snd (snd demo_three))) \<and>
     mset (released chs) = mset (all_ports (snd (snd demo_three)))"
    by blast
  with demo_three_run demo_well_addressed dp demo_released_run show ?thesis by (intro conjI)
qed

end
